theory Spec2Isabelle
  imports Main "HOL-Library.Sublist" "HOL-Library.Multiset" "HOL-Library.AList"
begin

section \<open>Strings and paths: the library functions main.go calls\<close>

text \<open>
  Go strings are byte sequences; \<open>string\<close> (a list of \<open>char\<close>) models them byte by byte.
  The functions of this section are the standard-library functions the program calls
  (\<open>strings.HasSuffix\<close>, \<open>strings.ReplaceAll\<close>, \<open>strings.TrimSuffix\<close>,
  \<open>strings.Join\<close>, \<open>filepath.Clean\<close>, \<open>filepath.Join\<close> on a Unix system, and the
  part of \<open>time.Format\<close> used by the layout \<open>20060102-150405\<close>), written after their Go
  implementations.
\<close>

definition HasSuffix :: "string \<Rightarrow> string \<Rightarrow> bool" where
  \<comment> \<open>\<open>len(s) >= len(suffix) && s[len(s)-len(suffix):] == suffix\<close>\<close>
  "HasSuffix s sfx = (length sfx \<le> length s \<and> drop (length s - length sfx) s = sfx)"

definition TrimSuffix :: "string \<Rightarrow> string \<Rightarrow> string" where
  \<comment> \<open>\<open>if HasSuffix(s, suffix) { return s[:len(s)-len(suffix)] }; return s\<close>\<close>
  "TrimSuffix s sfx = (if HasSuffix s sfx then take (length s - length sfx) s else s)"

definition ReplaceAll :: "string \<Rightarrow> char \<Rightarrow> string \<Rightarrow> string" where
  \<comment> \<open>\<open>strings.ReplaceAll(s, old, new)\<close> for a one-byte \<open>old\<close>, which is how both call
      sites of main.go use it: every occurrence of the byte is replaced by \<open>new\<close>.\<close>
  "ReplaceAll s old new = concat (map (\<lambda>c. if c = old then new else [c]) s)"

fun strings_Join :: "string list \<Rightarrow> string \<Rightarrow> string" where
  "strings_Join [] sep = []"
| "strings_Join [e] sep = e"
| "strings_Join (e # es) sep = e @ sep @ strings_Join es sep"

abbreviation Separator :: char where
  "Separator \<equiv> CHR ''/''"

definition elem_end :: "string \<Rightarrow> bool" where
  \<comment> \<open>\<open>r == n || os.IsPathSeparator(path[r])\<close> for the rest of the path from \<open>r\<close> on\<close>
  "elem_end r = (case r of [] \<Rightarrow> True | c # _ \<Rightarrow> c = Separator)"

function backtrack :: "string \<Rightarrow> nat \<Rightarrow> nat \<Rightarrow> nat" where
  \<comment> \<open>\<open>for out.w > dotdot && !os.IsPathSeparator(out.index(out.w)) { out.w-- }\<close>\<close>
  "backtrack buf dotdot w =
     (if dotdot < w \<and> buf ! w \<noteq> Separator
      then backtrack buf dotdot (w - 1) else w)"
  by pat_completeness auto
termination
  by (relation "measure (\<lambda>(buf, dotdot, w). w)") auto

declare backtrack.simps [simp del]

definition add_sep :: "bool \<Rightarrow> string \<Rightarrow> string" where
  \<comment> \<open>\<open>if rooted && out.w != 1 || !rooted && out.w != 0 { out.append(Separator) }\<close>\<close>
  "add_sep rooted out =
     (if (rooted \<and> length out \<noteq> 1) \<or> (\<not> rooted \<and> length out \<noteq> 0)
      then out @ [Separator] else out)"

function clean_loop :: "bool \<Rightarrow> string \<Rightarrow> string \<Rightarrow> nat \<Rightarrow> string" where
  \<comment> \<open>The \<open>for r < n\<close> loop of \<open>filepath.Clean\<close>: \<open>path\<close> is what is left to read from
      index \<open>r\<close> on, \<open>out\<close> the bytes written so far (\<open>out.w = length out\<close>).\<close>
  "clean_loop rooted path out dotdot =
     (case path of
        [] \<Rightarrow> out
      | c # r \<Rightarrow>
          if c = Separator then clean_loop rooted r out dotdot
          else if c = CHR ''.'' \<and> elem_end r then clean_loop rooted r out dotdot
          else if c = CHR ''.'' \<and> r \<noteq> [] \<and> hd r = CHR ''.'' \<and> elem_end (tl r) then
            (if dotdot < length out then
               clean_loop rooted (tl r) (take (backtrack out dotdot (length out - 1)) out) dotdot
             else if \<not> rooted then
               (let out' = (if out \<noteq> [] then out @ [Separator] else out) @ ''..''
                in clean_loop rooted (tl r) out' (length out'))
             else clean_loop rooted (tl r) out dotdot)
          else clean_loop rooted (dropWhile (\<lambda>x. x \<noteq> Separator) path)
                 (add_sep rooted out @ takeWhile (\<lambda>x. x \<noteq> Separator) path) dotdot)"
  by pat_completeness auto
termination
proof (relation "measure (\<lambda>(rooted, path, out, dotdot). length path)", goal_cases)
  case 1
  show ?case by simp
next
  case (2 rooted path out dotdot c r)
  then show ?case by simp
next
  case (3 rooted path out dotdot c r)
  then show ?case by simp
next
  case (4 rooted path out dotdot c r)
  then show ?case by (cases r) simp_all
next
  case (5 rooted path out dotdot c r)
  then show ?case by (cases r) simp_all
next
  case (6 rooted path out dotdot c r)
  then show ?case by (cases r) simp_all
next
  case (7 rooted path out dotdot c r)
  have "length (dropWhile (\<lambda>x. x \<noteq> Separator) r) \<le> length r"
    by (rule length_dropWhile_le)
  with 7 show ?case by simp
qed

declare clean_loop.simps [simp del]

definition Clean :: "string \<Rightarrow> string" where
  "Clean path =
     (if path = [] then ''.''
      else
        let rooted = (hd path = Separator);
            out = (if rooted then clean_loop True (tl path) [Separator] 1
                   else clean_loop False path [] 0)
        in if out = [] then ''.'' else out)"

fun Join :: "string list \<Rightarrow> string" where
  \<comment> \<open>\<open>filepath.Join\<close>: the elements from the first non-empty one on, joined by the
      separator and cleaned; the empty string when every element is empty.\<close>
  "Join [] = []"
| "Join (e # es) = (if e \<noteq> [] then Clean (strings_Join (e # es) [Separator]) else Join es)"

subsection \<open>The timestamp layout\<close>

record Time =
  Year :: int
  Month :: int
  Day :: int
  Hour :: int
  Minute :: int
  Second :: int

definition digit :: "nat \<Rightarrow> char" where
  "digit d = ''0123456789'' ! d"

fun utod :: "nat \<Rightarrow> string" where
  \<comment> \<open>the decimal digits of an unsigned number, most significant first\<close>
  "utod u = (if u < 10 then [digit u] else utod (u div 10) @ [digit (u mod 10)])"

declare utod.simps [simp del]

definition appendInt :: "int \<Rightarrow> nat \<Rightarrow> string" where
  \<comment> \<open>\<open>time.appendInt\<close>: a minus sign for a negative number, then the digits of its
      absolute value, padded with zeros on the left up to \<open>width\<close>\<close>
  "appendInt x width =
     (let ds = utod (nat \<bar>x\<bar>)
      in (if x < 0 then ''-'' else []) @ replicate (width - length ds) (CHR ''0'') @ ds)"

definition Format :: "Time \<Rightarrow> string" where
  \<comment> \<open>\<open>t.Format("20060102-150405")\<close>\<close>
  "Format t =
     appendInt (Year t) 4 @ appendInt (Month t) 2 @ appendInt (Day t) 2 @ ''-'' @
     appendInt (Hour t) 2 @ appendInt (Minute t) 2 @ appendInt (Second t) 2"

section \<open>Data model of main.go\<close>

record Config =
  BackupDir :: string
  MaxWorkers :: int
  Verbose :: bool
  CompressType :: string

text \<open>
  \<open>ImageInfo\<close> is the sidecar record. Its last field is \<open>CompressType\<close> in the source
  (JSON key \<open>compress_type\<close>); it is \<open>InfoCompressType\<close> here because \<open>Config\<close> has a field
  of the same name. \<open>Size\<close> is an \<open>int64\<close> that the program copies and never computes with.
\<close>

record ImageInfo =
  ImageName :: string
  ImageID :: string
  Tags :: "string list"
  Size :: int
  BackupDate :: Time
  InfoCompressType :: string

text \<open>The fields of the engine's \<open>types.ImageInspect\<close> that \<open>backupImage\<close> reads.\<close>

record ImageInspect =
  img_ID :: string
  img_RepoTags :: "string list"
  img_Size :: int

text \<open>An \<open>exec.Cmd\<close>: the program and its arguments.\<close>

datatype Cmd = Command string "string list"

text \<open>
  What the program does that can be seen from outside, in order. A message is kept as its
  format string and its arguments; an argument is a string (also the text of an error), a
  byte count printed in megabytes with \<open>%.2f\<close>, or a time printed in RFC 3339.
  \<^item> \<open>Printf\<close>: a line on standard output (\<open>fmt.Printf\<close>, \<open>fmt.Println\<close>, \<open>color...Printf\<close>);
  \<^item> \<open>LogPrintf\<close>: \<open>log.Printf\<close>, the only way an item-level error is reported;
  \<^item> \<open>Fatalf\<close>: \<open>log.Fatal\<close> and \<open>log.Fatalf\<close>, which print and end the process with status 1;
  \<^item> \<open>MkdirAll\<close>: the call \<open>os.MkdirAll(path, 0755)\<close>;
  \<^item> \<open>Exec\<close>: an external command that was run.
\<close>

datatype arg = Str string | MB int | RFC3339 Time

datatype event =
    Printf string "arg list"
  | LogPrintf string "arg list"
  | Fatalf string "arg list"
  | MkdirAll string
  | Exec Cmd

fun execs :: "event list \<Rightarrow> Cmd list" where
  \<comment> \<open>the commands of a trace\<close>
  "execs [] = []"
| "execs (Exec c # es) = c # execs es"
| "execs (e # es) = execs es"

fun reports :: "event list \<Rightarrow> event list" where
  \<comment> \<open>the error reports of a trace\<close>
  "reports [] = []"
| "reports (LogPrintf f args # es) = LogPrintf f args # reports es"
| "reports (e # es) = reports es"

section \<open>The restore pipeline\<close>

text \<open>
  The operating system as the program reads it: whether \<open>os.Stat\<close> succeeds on a path, what
  \<open>os.Open\<close> gives (the content of the file, or \<open>None\<close> for an error) and what
  \<open>json.Decoder.Decode\<close> makes of a content (\<open>None\<close> for an error). \<open>restoreImage\<close> also
  runs a command and takes its combined output and its error.
\<close>

record os_sys =
  Stat_ok :: "string \<Rightarrow> bool"
  Open :: "string \<Rightarrow> string option"
  Decode :: "string \<Rightarrow> ImageInfo option"

record restore_sys = os_sys +
  CombinedOutput :: "Cmd \<Rightarrow> string \<times> string option"

definition compressed :: "restore_sys \<Rightarrow> string \<Rightarrow> bool" where
  \<comment> \<open>the value of the local variable \<open>compressed\<close> after lines 316-337\<close>
  "compressed sys tarballPath =
     (let metadataPath = tarballPath @ ''.json'' in
      if HasSuffix tarballPath ''.tar.gz'' \<or> HasSuffix tarballPath ''.tgz'' then True
      else if Stat_ok sys metadataPath then
        (case Open sys metadataPath of
           Some metadataFile \<Rightarrow>
             (case Decode sys metadataFile of
                Some imageInfo \<Rightarrow> InfoCompressType imageInfo = ''gzip''
              | None \<Rightarrow> False)
         | None \<Rightarrow> False)
      else False)"

definition gunzip_load :: "string \<Rightarrow> Cmd" where
  \<comment> \<open>line 343\<close>
  "gunzip_load tarballPath =
     Command ''sh'' [''-c'', ''gunzip -c '' @ tarballPath @ '' | docker load'']"

definition docker_load :: "string \<Rightarrow> Cmd" where
  \<comment> \<open>line 346\<close>
  "docker_load tarballPath = Command ''docker'' [''load'', ''-i'', tarballPath]"

definition restoreImage :: "Config \<Rightarrow> restore_sys \<Rightarrow> string \<Rightarrow> event list" where
  "restoreImage config sys tarballPath =
     (if Verbose config
      then [Printf ''Starting restore of image from: %s\<newline>'' [Str tarballPath]]
      else []) @
     (let cmd = (if compressed sys tarballPath then gunzip_load tarballPath
                 else docker_load tarballPath)
      in (if compressed sys tarballPath
          then [Printf ''Loading compressed image from %s...\<newline>'' [Str tarballPath]]
          else [Printf ''Loading image from %s...\<newline>'' [Str tarballPath]]) @
         [Exec cmd] @
         (case CombinedOutput sys cmd of
            (output, Some err) \<Rightarrow>
              [LogPrintf ''Failed to load image from %s: %v\<newline>%s''
                 [Str tarballPath, Str err, Str output]]
          | (output, None) \<Rightarrow>
              [Printf ''Successfully restored image from %s\<newline>'' [Str tarballPath],
               Printf ''Docker output: %s\<newline>'' [Str output]]))"

section \<open>The backup pipeline\<close>

definition safeImageName :: "string \<Rightarrow> string" where
  \<comment> \<open>lines 195-196\<close>
  "safeImageName imageName =
     ReplaceAll (ReplaceAll imageName (CHR ''/'') ''_'') (CHR '':'') ''_''"

definition tarballName :: "Config \<Rightarrow> string \<Rightarrow> Time \<Rightarrow> string" where
  \<comment> \<open>lines 197-202; \<open>now\<close> is what \<open>time.Now()\<close> returned\<close>
  "tarballName config imageName now =
     (let timestamp = Format now;
          name = Join [BackupDir config, safeImageName imageName @ ''-'' @ timestamp @ ''.tar'']
      in if CompressType config = ''gzip'' then name @ ''.gz'' else name)"

definition metadataPath :: "string \<Rightarrow> string" where
  \<comment> \<open>line 233\<close>
  "metadataPath tarball = tarball @ ''.json''"

definition save_cmd :: "Config \<Rightarrow> string \<Rightarrow> string \<Rightarrow> Cmd" where
  \<comment> \<open>lines 206-212\<close>
  "save_cmd config imageName tarball =
     (if CompressType config = ''gzip''
      then Command ''sh'' [''-c'', ''docker save '' @ imageName @ '' | gzip > '' @ tarball]
      else Command ''docker'' [''save'', ''-o'', tarball, imageName])"

text \<open>
  The files of the machine: a path has a content or does not exist. With \<open>Verbose\<close> the
  save command writes to the standard streams of the program; that output is not among the
  events. The engine and the operating system as \<open>backupImage\<close> uses them:
  \<^item> \<open>ImageInspectWithRaw\<close>: the inspection of an image, or the text of its error;
  \<^item> \<open>Now\<close>, \<open>Now2\<close>: what the two calls of \<open>time.Now()\<close> return (lines 197 and 229);
  \<^item> \<open>Run\<close>: the error of \<open>cmd.Run()\<close> if any, and the files as the command leaves them;
  \<^item> \<open>Create_err\<close>: the error of \<open>os.Create\<close> on a path, if any; a successful
    \<open>os.Create\<close> leaves an empty file at the path;
  \<^item> \<open>Marshal\<close>: the indented JSON text of a record;
  \<^item> \<open>Encode_err\<close>: the error of \<open>encoder.Encode\<close> on a path, if any, with the number of
    bytes of the text that reached the file before it.
\<close>

type_synonym files = "string \<rightharpoonup> string"

record backup_sys =
  ImageInspectWithRaw :: "string \<Rightarrow> string + ImageInspect"
  Now :: Time
  Now2 :: Time
  Run :: "Cmd \<Rightarrow> files \<Rightarrow> string option \<times> files"
  Create_err :: "string \<Rightarrow> string option"
  Marshal :: "ImageInfo \<Rightarrow> string"
  Encode_err :: "string \<Rightarrow> (string \<times> nat) option"

definition write_sidecar ::
  "backup_sys \<Rightarrow> string \<Rightarrow> string \<Rightarrow> ImageInfo \<Rightarrow> files \<Rightarrow> event list \<times> files" where
  \<comment> \<open>lines 233-248\<close>
  "write_sidecar sys imageName tarball imageInfo fs =
     (case Create_err sys (metadataPath tarball) of
        Some err \<Rightarrow>
          ([LogPrintf ''Failed to create metadata file for %s: %v'' [Str imageName, Str err]], fs)
      | None \<Rightarrow>
          (case Encode_err sys (metadataPath tarball) of
             Some (err, n) \<Rightarrow>
               ([LogPrintf ''Failed to write metadata for %s: %v'' [Str imageName, Str err]],
                fs(metadataPath tarball \<mapsto> take n (Marshal sys imageInfo)))
           | None \<Rightarrow>
               ([Printf ''Successfully backed up image %s to %s\<newline>''
                   [Str imageName, Str tarball]],
                fs(metadataPath tarball \<mapsto> Marshal sys imageInfo))))"

definition backupImage ::
  "Config \<Rightarrow> backup_sys \<Rightarrow> string \<Rightarrow> files \<Rightarrow> event list \<times> files" where
  "backupImage config sys imageName fs =
     (let started = (if Verbose config
                     then [Printf ''Starting backup of image: %s\<newline>'' [Str imageName]]
                     else [])
      in case ImageInspectWithRaw sys imageName of
           Inl err \<Rightarrow>
             (started @ [LogPrintf ''Error inspecting image %s: %v'' [Str imageName, Str err]],
              fs)
         | Inr img \<Rightarrow>
             (let tarball = tarballName config imageName (Now sys);
                  cmd = save_cmd config imageName tarball;
                  saving = (if CompressType config = ''gzip''
                            then [Printf ''Saving image %s to %s (gzip compressed)...\<newline>''
                                    [Str imageName, Str tarball]]
                            else [Printf ''Saving image %s to %s...\<newline>''
                                    [Str imageName, Str tarball]])
              in case Run sys cmd fs of
                   (Some err, fs1) \<Rightarrow>
                     (started @ saving @ [Exec cmd] @
                      [LogPrintf ''Failed to save image %s: %v'' [Str imageName, Str err]],
                      fs1)
                 | (None, fs1) \<Rightarrow>
                     (let imageInfo = \<lparr>ImageName = imageName, ImageID = img_ID img,
                                        Tags = img_RepoTags img, Size = img_Size img,
                                        BackupDate = Now2 sys,
                                        InfoCompressType = CompressType config\<rparr>;
                          (written, fs2) = write_sidecar sys imageName tarball imageInfo fs1
                      in (started @ saving @ [Exec cmd] @ written, fs2))))"

subsection \<open>The save command as a process\<close>

text \<open>
  What \<open>cmd.Run()\<close> of line 219 returns comes from the process it starts. A program is
  given its arguments, its standard input and the files, and leaves an exit status, its
  standard output and the files; the programs of the machine are found by name.

  Line 211 starts \<open>docker\<close> itself. Line 208 starts \<open>sh -c\<close> on a script of two commands
  joined by \<open>|\<close>, the second with its output redirected by \<open>>\<close>. For a script of this
  kind (words and the two operators, each between blanks; no quoting, no expansion):
  \<^item> the shell splits the script into words at the blanks (\<open>sh_words\<close>) and into commands
    at the \<open>|\<close> words;
  \<^item> a command whose words hold \<open>>\<close> has its output in the file named next, which the
    shell opens, emptying it, before the command starts; a command that is not found has
    status 127;
  \<^item> the commands run with the output of each as the input of the next, and the exit
    status of the whole is the exit status of its last command: the statuses of the
    others are dropped. It is also the status of \<open>sh -c\<close>, whose script ends there.

  \<open>Run\<close> returns an error when the program is not found, and an \<open>ExitError\<close>, which
  prints as \<open>exit status n\<close>, when its exit status \<open>n\<close> is not 0.
\<close>

type_synonym program = "string list \<Rightarrow> string \<Rightarrow> files \<Rightarrow> nat \<times> string \<times> files"

fun split_at :: "'a \<Rightarrow> 'a list \<Rightarrow> 'a list list" where
  "split_at sep [] = [[]]"
| "split_at sep (x # xs) =
     (if x = sep then [] # split_at sep xs
      else case split_at sep xs of
             [] \<Rightarrow> [[x]]
           | w # ws \<Rightarrow> (x # w) # ws)"

definition sh_words :: "string \<Rightarrow> string list" where
  "sh_words s = filter (\<lambda>w. w \<noteq> []) (split_at (CHR '' '') s)"

definition simple_command ::
  "(string \<Rightarrow> program option) \<Rightarrow> string list \<Rightarrow> string \<Rightarrow> files \<Rightarrow>
   nat \<times> string \<times> files" where
  "simple_command path ws inp fs =
     (let argv = takeWhile (\<lambda>w. w \<noteq> ''>'') ws;
          target = drop 1 (dropWhile (\<lambda>w. w \<noteq> ''>'') ws)
      in case argv of
           [] \<Rightarrow> (0, [], fs)
         | name # args \<Rightarrow>
             (case target of
                [] \<Rightarrow>
                  (case path name of
                     None \<Rightarrow> (127, [], fs)
                   | Some prog \<Rightarrow> prog args inp fs)
              | file # _ \<Rightarrow>
                  (case path name of
                     None \<Rightarrow> (127, [], fs(file \<mapsto> []))
                   | Some prog \<Rightarrow>
                       (case prog args inp (fs(file \<mapsto> [])) of
                          (status, out, fs') \<Rightarrow> (status, [], fs'(file \<mapsto> out))))))"

fun sh_pipeline ::
  "(string \<Rightarrow> program option) \<Rightarrow> string list list \<Rightarrow> string \<Rightarrow> files \<Rightarrow>
   nat \<times> string \<times> files" where
  "sh_pipeline path [] inp fs = (0, inp, fs)"
| "sh_pipeline path [c] inp fs = simple_command path c inp fs"
| "sh_pipeline path (c # d # cs) inp fs =
     (case simple_command path c inp fs of
        (status, out, fs') \<Rightarrow> sh_pipeline path (d # cs) out fs')"

definition sh_c :: "(string \<Rightarrow> program option) \<Rightarrow> string \<Rightarrow> files \<Rightarrow> nat \<times> files" where
  "sh_c path script fs =
     (case sh_pipeline path (split_at ''|'' (sh_words script)) [] fs of
        (status, out, fs') \<Rightarrow> (status, fs'))"

definition ExitError :: "nat \<Rightarrow> string option" where
  "ExitError status = (if status = 0 then None else Some (''exit status '' @ utod status))"

definition Run_on ::
  "(string \<Rightarrow> program option) \<Rightarrow> Cmd \<Rightarrow> files \<Rightarrow> string option \<times> files" where
  \<open>Run_on path cmd fs =
     (case cmd of
        Command name args \<Rightarrow>
          if name = ''sh'' \<and> length args = 2 \<and> args ! 0 = ''-c''
          then (case sh_c path (args ! 1) fs of (status, fs') \<Rightarrow> (ExitError status, fs'))
          else
            case path name of
              None \<Rightarrow>
                (Some (''exec: "'' @ name @ ''": executable file not found in $PATH''), fs)
            | Some prog \<Rightarrow>
                (case prog args [] fs of (status, out, fs') \<Rightarrow> (ExitError status, fs')))\<close>

section \<open>The catalog listing\<close>

text \<open>
  A directory entry as \<open>os.ReadDir\<close> returns it: its name, whether it is a directory, and
  what \<open>file.Info()\<close> gives (\<open>None\<close> for an error). \<open>runList\<close> reads from a file info its size
  and its modification time.
\<close>

record FileInfo =
  FileSize :: int
  ModTime :: Time

record DirEntry =
  Name :: string
  IsDir :: bool
  Info :: "FileInfo option"

record list_sys = os_sys +
  Stat_IsNotExist :: "string \<Rightarrow> bool"
  ReadDir :: "string \<Rightarrow> string + DirEntry list"

text \<open>
  The two Go maps of \<open>runList\<close> are association lists with one pair for a key:
  \<open>m[k] = v\<close> is \<open>AList.update k v m\<close>, \<open>m[k]\<close> is \<open>map_of m k\<close>, \<open>len(m)\<close> is \<open>length m\<close>.
\<close>

definition scan_file ::
  "Config \<Rightarrow> list_sys \<Rightarrow> DirEntry \<Rightarrow>
   (string \<times> FileInfo) list \<times> (string \<times> ImageInfo) list \<Rightarrow>
   (string \<times> FileInfo) list \<times> (string \<times> ImageInfo) list" where
  \<comment> \<open>the body of the loop of lines 373-401 for one entry\<close>
  "scan_file config sys file maps =
     (case maps of (tarFiles, metaFiles) \<Rightarrow>
        if IsDir file then (tarFiles, metaFiles)
        else
          case Info file of
            None \<Rightarrow> (tarFiles, metaFiles)
          | Some info \<Rightarrow>
              if HasSuffix (Name file) ''.tar'' \<or> HasSuffix (Name file) ''.tar.gz'' \<or>
                 HasSuffix (Name file) ''.tgz''
              then (AList.update (Name file) info tarFiles, metaFiles)
              else if HasSuffix (Name file) ''.json'' then
                (case Open sys (Join [BackupDir config, Name file]) of
                   None \<Rightarrow> (tarFiles, metaFiles)
                 | Some metaFile \<Rightarrow>
                     (case Decode sys metaFile of
                        None \<Rightarrow> (tarFiles, metaFiles)
                      | Some imageInfo \<Rightarrow>
                          (tarFiles,
                           AList.update (TrimSuffix (Name file) ''.json'') imageInfo metaFiles)))
              else (tarFiles, metaFiles))"

fun scan ::
  "Config \<Rightarrow> list_sys \<Rightarrow> DirEntry list \<Rightarrow>
   (string \<times> FileInfo) list \<times> (string \<times> ImageInfo) list \<Rightarrow>
   (string \<times> FileInfo) list \<times> (string \<times> ImageInfo) list" where
  \<comment> \<open>the loop of lines 373-401 over the entries that are left\<close>
  "scan config sys [] maps = maps"
| "scan config sys (file # files) maps = scan config sys files (scan_file config sys file maps)"

definition attributes :: "string \<times> FileInfo \<Rightarrow> event list" where
  \<comment> \<open>lines 412-414\<close>
  "attributes e =
     [Printf ''Backup: %s\<newline>'' [Str (fst e)],
      Printf ''  Size: %.2f MB\<newline>'' [MB (FileSize (snd e))],
      Printf ''  Date: %s\<newline>'' [RFC3339 (ModTime (snd e))]]"

definition enrichment :: "Config \<Rightarrow> ImageInfo \<Rightarrow> event list" where
  \<comment> \<open>lines 418-423\<close>
  "enrichment config meta =
     [Printf ''  Image: %s\<newline>'' [Str (ImageName meta)],
      Printf ''  Tags: %s\<newline>'' [Str (strings_Join (Tags meta) '', '')]] @
     (if Verbose config
      then [Printf ''  ID: %s\<newline>'' [Str (ImageID meta)],
            Printf ''  Compression: %s\<newline>'' [Str (InfoCompressType meta)]]
      else [])"

definition entry ::
  "Config \<Rightarrow> (string \<times> ImageInfo) list \<Rightarrow> string \<times> FileInfo \<Rightarrow> event list" where
  \<comment> \<open>the body of the loop of lines 411-426 for one key and value of \<open>tarFiles\<close>\<close>
  "entry config metaFiles e =
     attributes e @
     (case map_of metaFiles (fst e) of
        Some meta \<Rightarrow> enrichment config meta
      | None \<Rightarrow> []) @
     [Printf ''\<newline>'' []]"

text \<open>
  Go does not specify the order in which \<open>range\<close> visits a map, and it differs from one run
  to the next. \<open>runList\<close> therefore takes the order of the visit as an argument, and
  \<open>range_order m visit\<close> says that \<open>visit\<close> is a possible one: every pair of \<open>m\<close> once.
\<close>

definition range_order :: "('k \<times> 'v) list \<Rightarrow> ('k \<times> 'v) list \<Rightarrow> bool" where
  "range_order m visit = (mset visit = mset m)"

definition catalog ::
  "Config \<Rightarrow> list_sys \<Rightarrow> DirEntry list \<Rightarrow> (string \<times> FileInfo) list \<Rightarrow> event list list" where
  \<comment> \<open>what the loop of lines 411-426 prints for each entry, in the order of the visit\<close>
  "catalog config sys files visit =
     map (entry config (snd (scan config sys files ([], [])))) visit"

definition runList :: "Config \<Rightarrow> list_sys \<Rightarrow> (string \<times> FileInfo) list \<Rightarrow> event list" where
  "runList config sys visit =
     (if Stat_IsNotExist sys (BackupDir config)
      then [Printf ''Backup directory %s does not exist\<newline>'' [Str (BackupDir config)]]
      else
        case ReadDir sys (BackupDir config) of
          Inl err \<Rightarrow> [Fatalf ''Failed to read backup directory: %v'' [Str err]]
        | Inr files \<Rightarrow>
            if length (fst (scan config sys files ([], []))) = 0
            then [Printf ''No backups found\<newline>'' []]
            else
              [Printf ''Available Docker image backups:\<newline>'' [],
               Printf ''---------------------------------\<newline>'' []] @
              concat (catalog config sys files visit))"

section \<open>The batch runner\<close>

text \<open>
  Lines 164-180 of \<open>runBackup\<close> and 293-308 of \<open>runRestore\<close> are the same code around a
  different task:
  \<^verbatim>\<open>
    var wg sync.WaitGroup
    semaphore := make(chan struct{}, config.MaxWorkers)
    for _, x := range items {
        wg.Add(1)
        semaphore <- struct{}{}
        go func(x string) {
            defer wg.Done()
            defer func() { <-semaphore }()
            task(x)
        }(x)
    }
    wg.Wait()
  \<close>
  Its executions are the interleavings of the calling goroutine and of the goroutines it
  starts. A state holds where the caller is, how many items the loop has handed over, the
  number of elements in the channel, the counter of the wait group, where each started
  goroutine is (in the order they were started, with its argument), and two logs: the task
  invocations and the task returns so far, each with the index of its iteration.
\<close>

datatype 'a pc =
    Loop       \<comment> \<open>at the head of the \<open>for\<close> loop\<close>
  | Send 'a    \<comment> \<open>after \<open>wg.Add(1)\<close>, at \<open>semaphore <- struct{}{}\<close>\<close>
  | Go 'a      \<comment> \<open>after the send, at the \<open>go\<close> statement\<close>
  | Wait       \<comment> \<open>at \<open>wg.Wait()\<close>\<close>
  | Returned   \<comment> \<open>after \<open>wg.Wait()\<close>, where the notice of completion is printed\<close>
  | Panicked   \<comment> \<open>\<open>wg.Done()\<close> made the counter negative\<close>

datatype gstate =
    Spawned    \<comment> \<open>started, the task not yet called\<close>
  | Running    \<comment> \<open>inside the task\<close>
  | Finished   \<comment> \<open>the task has returned; the deferred calls are pending\<close>
  | Released   \<comment> \<open>after the deferred \<open><-semaphore\<close>\<close>
  | Exited     \<comment> \<open>after the deferred \<open>wg.Done()\<close>\<close>

record ('a, 'r) orch =
  pc :: "'a pc"
  ranged :: nat
  sem :: nat
  wg :: int
  gs :: "('a \<times> gstate) list"
  calls :: "(nat \<times> 'a) list"
  results :: "(nat \<times> 'r) list"

definition init :: "('a, 'r) orch" where
  "init = \<lparr>pc = Loop, ranged = 0, sem = 0, wg = 0, gs = [], calls = [], results = []\<rparr>"

text \<open>
  One step of one goroutine. \<open>cap\<close> is the capacity of the channel, \<open>outcome k\<close> what the
  task of iteration \<open>k\<close> does and reports; the task returns nothing, so no step reads it.
  A send waits while the channel is full, a receive while it is empty, \<open>wg.Wait()\<close> while
  the counter is not zero. The deferred calls run last registered first: the receive, then
  \<open>wg.Done()\<close>, which panics when it makes the counter negative; a panic ends the program, so
  no goroutine steps after it. With capacity zero the channel is unbuffered: the first send
  finds no receiver, no rule applies, and the program stops there.
\<close>

inductive step ::
  "nat \<Rightarrow> 'a list \<Rightarrow> (nat \<Rightarrow> 'r) \<Rightarrow> ('a, 'r) orch \<Rightarrow> ('a, 'r) orch \<Rightarrow> bool"
  for cap :: nat and items :: "'a list" and outcome :: "nat \<Rightarrow> 'r" where
  step_add: "pc s = Loop \<Longrightarrow> ranged s < length items \<Longrightarrow>
        step cap items outcome s (s\<lparr>pc := Send (items ! ranged s), wg := wg s + 1\<rparr>)"
| step_send: "pc s = Send x \<Longrightarrow> sem s < cap \<Longrightarrow>
         step cap items outcome s (s\<lparr>pc := Go x, sem := sem s + 1\<rparr>)"
| step_go: "pc s = Go x \<Longrightarrow>
       step cap items outcome s
         (s\<lparr>pc := Loop, ranged := ranged s + 1, gs := gs s @ [(x, Spawned)]\<rparr>)"
| step_wait: "pc s = Loop \<Longrightarrow> \<not> ranged s < length items \<Longrightarrow>
         step cap items outcome s (s\<lparr>pc := Wait\<rparr>)"
| step_return: "pc s = Wait \<Longrightarrow> wg s = 0 \<Longrightarrow>
           step cap items outcome s (s\<lparr>pc := Returned\<rparr>)"
| step_start: "pc s \<noteq> Panicked \<Longrightarrow> k < length (gs s) \<Longrightarrow> gs s ! k = (x, Spawned) \<Longrightarrow>
          step cap items outcome s
            (s\<lparr>gs := (gs s)[k := (x, Running)], calls := calls s @ [(k, x)]\<rparr>)"
| step_finish: "pc s \<noteq> Panicked \<Longrightarrow> k < length (gs s) \<Longrightarrow> gs s ! k = (x, Running) \<Longrightarrow>
           step cap items outcome s
             (s\<lparr>gs := (gs s)[k := (x, Finished)], results := results s @ [(k, outcome k)]\<rparr>)"
| step_release: "pc s \<noteq> Panicked \<Longrightarrow> k < length (gs s) \<Longrightarrow> gs s ! k = (x, Finished) \<Longrightarrow>
            0 < sem s \<Longrightarrow>
            step cap items outcome s (s\<lparr>gs := (gs s)[k := (x, Released)], sem := sem s - 1\<rparr>)"
| step_done: "pc s \<noteq> Panicked \<Longrightarrow> k < length (gs s) \<Longrightarrow> gs s ! k = (x, Released) \<Longrightarrow>
         0 < wg s \<Longrightarrow>
         step cap items outcome s (s\<lparr>gs := (gs s)[k := (x, Exited)], wg := wg s - 1\<rparr>)"
| step_done_panic: "pc s \<noteq> Panicked \<Longrightarrow> k < length (gs s) \<Longrightarrow> gs s ! k = (x, Released) \<Longrightarrow>
               \<not> 0 < wg s \<Longrightarrow>
               step cap items outcome s (s\<lparr>pc := Panicked, wg := wg s - 1\<rparr>)"

definition reachable ::
  "nat \<Rightarrow> 'a list \<Rightarrow> (nat \<Rightarrow> 'r) \<Rightarrow> ('a, 'r) orch \<Rightarrow> bool" where
  "reachable cap items outcome s = (step cap items outcome)\<^sup>*\<^sup>* init s"

definition in_flight :: "('a, 'r) orch \<Rightarrow> nat" where
  \<comment> \<open>the number of task invocations that have started and not returned\<close>
  "in_flight s = length (filter (\<lambda>g. snd g = Running) (gs s))"

text \<open>
  \<open>runBackup\<close> and \<open>runRestore\<close> from the resolved list of work items on (lines 148-180 and
  289-308; reading the list from the arguments, a file or standard input comes before).
  Each gives what it did before the batch and how it goes on: the process has ended with
  status 1, \<open>make\<close> panics on a negative capacity, or the batch runs with a capacity and
  the items.
\<close>

datatype run = Exit_1 | Make_panics | Batch nat "string list"

record start_sys =
  MkdirAll_err :: "string \<Rightarrow> string option"
  NewClient_err :: "string option"

definition runBackup :: "Config \<Rightarrow> start_sys \<Rightarrow> string list \<Rightarrow> event list \<times> run" where
  "runBackup config sys imageNames =
     (if length imageNames = 0
      then ([Fatalf ''No image names provided. Use command arguments, --file, or --stdin'' []],
            Exit_1)
      else
        case MkdirAll_err sys (BackupDir config) of
          Some err \<Rightarrow>
            ([MkdirAll (BackupDir config),
              Fatalf ''Failed to create backup directory: %v'' [Str err]], Exit_1)
        | None \<Rightarrow>
            (case NewClient_err sys of
               Some err \<Rightarrow>
                 ([MkdirAll (BackupDir config),
                   Fatalf ''Failed to create Docker client: %v'' [Str err]], Exit_1)
             | None \<Rightarrow>
                 if MaxWorkers config < 0 then ([MkdirAll (BackupDir config)], Make_panics)
                 else ([MkdirAll (BackupDir config)],
                       Batch (nat (MaxWorkers config)) imageNames)))"

definition runRestore :: "Config \<Rightarrow> string list \<Rightarrow> event list \<times> run" where
  "runRestore config tarballPaths =
     (if length tarballPaths = 0
      then ([Fatalf ''No tarball paths provided. Use command arguments, --file, or --stdin'' []],
            Exit_1)
      else if MaxWorkers config < 0 then ([], Make_panics)
      else ([], Batch (nat (MaxWorkers config)) tarballPaths))"

section \<open>Notions used in the statements\<close>

subsection \<open>Paths, names and stamps\<close>

text \<open>
  A path element that \<open>filepath.Clean\<close> keeps as it is: not empty, without a separator,
  and neither \<open>.\<close> nor \<open>..\<close>.
\<close>

definition real_elem :: "string \<Rightarrow> bool" where
  "real_elem e = (e \<noteq> [] \<and> Separator \<notin> set e \<and> e \<noteq> ''.'' \<and> e \<noteq> ''..'')"

text \<open>
  What \<open>filepath.Join\<close> puts before a kept last element, as a function of the directory
  alone: nothing, or the cleaned directory with a separator at its end.
\<close>

definition dir_prefix :: "string \<Rightarrow> string" where
  "dir_prefix d =
     (if d = [] then []
      else if hd d = Separator then add_sep True (clean_loop True (tl d) [Separator] 1)
      else add_sep False (clean_loop False d [] 0))"

text \<open>
  The same in terms of the cleaned directory: nothing for the current directory, the
  cleaned directory with a separator at its end otherwise (the root is its own separator).
  \<open>unrooted\<close> is what \<open>filepath.Clean\<close> keeps true of its output buffer on a path that
  does not start at the root: it starts with no separator and is not the element \<open>.\<close>.
\<close>

definition dir_part :: "string \<Rightarrow> string" where
  "dir_part d =
     (if d = [] \<or> Clean d = ''.'' then []
      else if Clean d = [Separator] then [Separator]
      else Clean d @ [Separator])"

definition unrooted :: "string \<Rightarrow> nat \<Rightarrow> bool" where
  "unrooted out dotdot =
     ((out = [] \<or> hd out \<noteq> Separator) \<and> out \<noteq> ''.'' \<and> take 2 out \<noteq> ''./'' \<and> dotdot \<noteq> 1)"

text \<open>
  The decimal digits of a number in a fixed width, the shape \<open>YYYYMMDD-HHMMSS\<close>, and the
  times that have it: a time of day on a date whose year has at most four digits.
\<close>

fun dec :: "nat \<Rightarrow> nat \<Rightarrow> string" where
  "dec 0 n = []"
| "dec (Suc w) n = dec w (n div 10) @ [digit (n mod 10)]"

definition YYYYMMDD_HHMMSS :: "Time \<Rightarrow> string" where
  "YYYYMMDD_HHMMSS t =
     dec 4 (nat (Year t)) @ dec 2 (nat (Month t)) @ dec 2 (nat (Day t)) @ ''-'' @
     dec 2 (nat (Hour t)) @ dec 2 (nat (Minute t)) @ dec 2 (nat (Second t))"

definition clock_time :: "Time \<Rightarrow> bool" where
  "clock_time t =
     (0 \<le> Year t \<and> Year t \<le> 9999 \<and> 1 \<le> Month t \<and> Month t \<le> 12 \<and>
      1 \<le> Day t \<and> Day t \<le> 31 \<and> 0 \<le> Hour t \<and> Hour t \<le> 23 \<and>
      0 \<le> Minute t \<and> Minute t \<le> 59 \<and> 0 \<le> Second t \<and> Second t \<le> 59)"

text \<open>The sanitized item: each \<open>/\<close> and each \<open>:\<close> replaced by \<open>_\<close>.\<close>

definition sanitized :: "string \<Rightarrow> string" where
  "sanitized item = map (\<lambda>c. if c = CHR ''/'' \<or> c = CHR '':'' then CHR ''_'' else c) item"

text \<open>A name that ends in \<open>.tar\<close>, \<open>.tar.gz\<close> or \<open>.tgz\<close>; the empty line that ends an entry.\<close>

definition archive_name :: "string \<Rightarrow> bool" where
  "archive_name name =
     (suffix ''.tar'' name \<or> suffix ''.tar.gz'' name \<or> suffix ''.tgz'' name)"

subsection \<open>Errors handed to a pipeline\<close>

text \<open>
  The backup pipeline is handed an error (\<open>backup_err\<close>) by one of the four calls whose
  \<open>err\<close> it tests: the inspection, \<open>cmd.Run()\<close>, the creation of the sidecar or its
  writing. The restore pipeline is handed one (\<open>restore_err\<close>) by \<open>CombinedOutput\<close> of its
  load command. A trace is \<open>reported_last\<close> when it has no report, or one report that is
  its last event.
\<close>

definition backup_err :: "Config \<Rightarrow> backup_sys \<Rightarrow> string \<Rightarrow> files \<Rightarrow> bool" where
  "backup_err config sys item fs =
     (case ImageInspectWithRaw sys item of
        Inl err \<Rightarrow> True
      | Inr img \<Rightarrow>
          (case Run sys (save_cmd config item (tarballName config item (Now sys))) fs of
             (Some err, fs1) \<Rightarrow> True
           | (None, fs1) \<Rightarrow>
               Create_err sys (metadataPath (tarballName config item (Now sys))) \<noteq> None \<or>
               Encode_err sys (metadataPath (tarballName config item (Now sys))) \<noteq> None))"

definition restore_err :: "restore_sys \<Rightarrow> string \<Rightarrow> bool" where
  "restore_err sys path =
     (snd (CombinedOutput sys (if compressed sys path then gunzip_load path
                               else docker_load path)) \<noteq> None)"

definition reported_last :: "event list \<Rightarrow> bool" where
  "reported_last trace =
     (case reports trace of
        [] \<Rightarrow> True
      | [r] \<Rightarrow> trace \<noteq> [] \<and> last trace = r
      | _ \<Rightarrow> False)"

subsection \<open>States of the batch runner\<close>

text \<open>
  A goroutine holds an element of the channel from its start to its receive, and counts in
  the wait group until its \<open>wg.Done()\<close>; its task has been called once it is past
  \<open>Spawned\<close>, and has returned once it is past \<open>Running\<close>. The caller holds one more
  element between its send and its \<open>go\<close> statement, and counts one more between its
  \<open>wg.Add(1)\<close> and its \<open>go\<close> statement.
\<close>

definition holding :: "'a \<times> gstate \<Rightarrow> bool" where
  "holding g = (snd g = Spawned \<or> snd g = Running \<or> snd g = Finished)"

definition alive :: "'a \<times> gstate \<Rightarrow> bool" where
  "alive g = (snd g \<noteq> Exited)"

definition called :: "'a \<times> gstate \<Rightarrow> bool" where
  "called g = (snd g \<noteq> Spawned)"

definition returned :: "'a \<times> gstate \<Rightarrow> bool" where
  "returned g = (snd g \<noteq> Spawned \<and> snd g \<noteq> Running)"

definition at_go :: "'a pc \<Rightarrow> bool" where
  "at_go p = (case p of Go x \<Rightarrow> True | _ \<Rightarrow> False)"

definition added :: "'a pc \<Rightarrow> bool" where
  "added p = (case p of Send x \<Rightarrow> True | Go x \<Rightarrow> True | _ \<Rightarrow> False)"

text \<open>
  What holds in every reachable state: the goroutines are those of the items handed over so
  far, in order (\<open>shape\<close>); the channel and the wait group count what they should
  (\<open>counts\<close>); the two logs name each goroutine at most once, and exactly those whose task
  was called, or has returned (\<open>logs\<close>).
\<close>

definition shape :: "'a list \<Rightarrow> ('a, 'r) orch \<Rightarrow> bool" where
  "shape items s =
     (length (gs s) = ranged s \<and> ranged s \<le> length items \<and>
      (\<forall>k < length (gs s). fst (gs s ! k) = items ! k) \<and>
      (\<forall>x. pc s = Send x \<or> pc s = Go x \<longrightarrow> ranged s < length items \<and> x = items ! ranged s) \<and>
      (pc s = Wait \<or> pc s = Returned \<longrightarrow> ranged s = length items))"

definition counts :: "nat \<Rightarrow> ('a, 'r) orch \<Rightarrow> bool" where
  "counts cap s =
     (sem s = length (filter holding (gs s)) + (if at_go (pc s) then 1 else 0) \<and>
      wg s = int (length (filter alive (gs s))) + (if added (pc s) then 1 else 0) \<and>
      sem s \<le> cap \<and> (pc s = Returned \<longrightarrow> wg s = 0) \<and> pc s \<noteq> Panicked)"

definition logs :: "(nat \<Rightarrow> 'r) \<Rightarrow> ('a, 'r) orch \<Rightarrow> bool" where
  "logs outcome s =
     (distinct (map fst (calls s)) \<and>
      set (map fst (calls s)) = {k. k < length (gs s) \<and> called (gs s ! k)} \<and>
      (\<forall>k x. (k, x) \<in> set (calls s) \<longrightarrow> x = fst (gs s ! k)) \<and>
      distinct (map fst (results s)) \<and>
      set (map fst (results s)) = {k. k < length (gs s) \<and> returned (gs s ! k)} \<and>
      (\<forall>k r. (k, r) \<in> set (results s) \<longrightarrow> r = outcome k))"

text \<open>
  The number of steps that are left before the runner returns: seven for an item not yet
  handed over (three of the caller, four of the goroutine), and what is left of each
  goroutine and of the caller.
\<close>

definition weight :: "'a \<times> gstate \<Rightarrow> nat" where
  "weight g = (case snd g of Spawned \<Rightarrow> 4 | Running \<Rightarrow> 3 | Finished \<Rightarrow> 2 | Released \<Rightarrow> 1
               | Exited \<Rightarrow> 0)"

definition pc_weight :: "'a pc \<Rightarrow> nat" where
  "pc_weight p = (case p of Loop \<Rightarrow> 2 | Send x \<Rightarrow> 1 | Go x \<Rightarrow> 0 | Wait \<Rightarrow> 1 | Returned \<Rightarrow> 0
                  | Panicked \<Rightarrow> 0)"

definition steps_left :: "'a list \<Rightarrow> ('a, 'r) orch \<Rightarrow> nat" where
  "steps_left items s =
     7 * (length items - ranged s) + pc_weight (pc s) + sum_list (map weight (gs s))"

text \<open>The same state, had the tasks reported \<open>outcome\<close> instead.\<close>

definition relabel :: "(nat \<Rightarrow> 'r) \<Rightarrow> ('a, 'r) orch \<Rightarrow> ('a, 'r) orch" where
  "relabel outcome s = s\<lparr>results := map (\<lambda>p. (fst p, outcome (fst p))) (results s)\<rparr>"

section \<open>Example inputs\<close>

text \<open>
  The default configuration of \<open>main\<close>, a time, and systems for the examples: a sidecar
  at one path that declares a compression kind, no sidecar at all; an engine whose save
  leaves an archive while the sidecar cannot be created, one that does not know the image,
  one where all goes well; a directory with three archives, one without a sidecar, one with
  a sidecar that parses and one with a sidecar that does not; two orders of a visit; the
  end of one execution of the batch runner over two items. For the save command: a program
  that ends with a given status and has written nothing, a \<open>docker\<close> that saves given
  bytes (to its standard output, or to the file after \<open>-o\<close>), a \<open>gzip\<close> that compresses
  with a given function, a machine with a \<open>docker\<close> and a \<open>gzip\<close>, and the system where
  all goes well with its commands run on such a machine.
\<close>

definition config0 :: Config where
  "config0 = \<lparr>BackupDir = ''docker-backups'', MaxWorkers = 3, Verbose = False,
              CompressType = ''gzip''\<rparr>"

definition stamp0 :: Time where
  "stamp0 = \<lparr>Year = 2023, Month = 6, Day = 15, Hour = 12, Minute = 5, Second = 30\<rparr>"

definition sys_sidecar :: "string \<Rightarrow> string \<Rightarrow> restore_sys" where
  "sys_sidecar p kind =
     \<lparr>Stat_ok = (\<lambda>q. q = p), Open = (\<lambda>q. if q = p then Some kind else None),
      Decode = (\<lambda>c. Some \<lparr>ImageName = ''demo:1.0'', ImageID = ''sha256:0'', Tags = [],
                           Size = 0, BackupDate = \<lparr>Year = 2023, Month = 6, Day = 15,
                             Hour = 12, Minute = 5, Second = 30\<rparr>,
                           InfoCompressType = c\<rparr>),
      CombinedOutput = (\<lambda>c. ([], None))\<rparr>"

definition sys_bare :: restore_sys where
  "sys_bare = \<lparr>Stat_ok = (\<lambda>q. False), Open = (\<lambda>q. None), Decode = (\<lambda>c. None),
               CombinedOutput = (\<lambda>c. ([], None))\<rparr>"

definition sys_orphan :: backup_sys where
  "sys_orphan =
     \<lparr>ImageInspectWithRaw =
        (\<lambda>i. Inr \<lparr>img_ID = ''sha256:0'', img_RepoTags = [''demo:1.0''], img_Size = 7\<rparr>),
      Now = stamp0, Now2 = stamp0,
      Run = (\<lambda>c fs. (None, fs(''docker-backups/demo_1.0-20230615-120530.tar.gz'' \<mapsto> ''ARCHIVE''))),
      Create_err = (\<lambda>p. Some ''permission denied''),
      Marshal = (\<lambda>i. ''{}''),
      Encode_err = (\<lambda>p. None)\<rparr>"

definition sys_missing :: backup_sys where
  "sys_missing = sys_orphan\<lparr>ImageInspectWithRaw := (\<lambda>i. Inl ''No such image'')\<rparr>"

definition sys_fine :: backup_sys where
  "sys_fine = sys_orphan\<lparr>Create_err := (\<lambda>p. None)\<rparr>"

definition exits :: "nat \<Rightarrow> program" where
  "exits status args inp fs = (status, [], fs)"

definition docker_saves :: "string \<Rightarrow> program" where
  "docker_saves bytes args inp fs =
     (if length args = 2 \<and> args ! 0 = ''save'' then (0, bytes, fs)
      else if length args = 4 \<and> args ! 0 = ''save'' \<and> args ! 1 = ''-o''
      then (0, [], fs(args ! 2 \<mapsto> bytes))
      else (1, [], fs))"

definition gzip_prog :: "(string \<Rightarrow> string) \<Rightarrow> program" where
  "gzip_prog deflate args inp fs = (0, deflate inp, fs)"

definition machine :: "program \<Rightarrow> program \<Rightarrow> string \<Rightarrow> program option" where
  "machine docker gzip name =
     (if name = ''docker'' then Some docker else if name = ''gzip'' then Some gzip else None)"

definition sys_on :: "(string \<Rightarrow> program option) \<Rightarrow> backup_sys" where
  "sys_on path = sys_fine\<lparr>Run := Run_on path\<rparr>"

definition demo_outcome :: "nat \<Rightarrow> event list" where
  "demo_outcome k =
     fst (backupImage config0 (if k = 0 then sys_missing else sys_fine)
            ([''bad:1'', ''good:1''] ! k) Map.empty)"

definition fi :: "int \<Rightarrow> FileInfo" where
  "fi n = \<lparr>FileSize = n, ModTime = stamp0\<rparr>"

definition plain_file :: "string \<Rightarrow> int \<Rightarrow> DirEntry" where
  "plain_file name n = \<lparr>Name = name, IsDir = False, Info = Some (fi n)\<rparr>"

definition meta0 :: ImageInfo where
  "meta0 = \<lparr>ImageName = ''demo:1.0'', ImageID = ''sha256:0'',
            Tags = [''demo:1.0'', ''demo:latest''], Size = 7, BackupDate = stamp0,
            InfoCompressType = ''none''\<rparr>"

definition dir0 :: "DirEntry list" where
  "dir0 = [plain_file ''a.tar'' 1, plain_file ''b.tar'' 2, plain_file ''b.tar.json'' 3,
           plain_file ''c.tar'' 4, plain_file ''c.tar.json'' 5]"

definition sys_dir :: list_sys where
  "sys_dir =
     \<lparr>Stat_ok = (\<lambda>p. True),
      Open = (\<lambda>p. if p = ''docker-backups/b.tar.json'' then Some ''good''
                   else if p = ''docker-backups/c.tar.json'' then Some ''bad'' else None),
      Decode = (\<lambda>c. if c = ''good'' then Some meta0 else None),
      Stat_IsNotExist = (\<lambda>p. False),
      ReadDir = (\<lambda>p. Inr dir0)\<rparr>"

definition visit0 :: "(string \<times> FileInfo) list" where
  "visit0 = [(''c.tar'', fi 4), (''a.tar'', fi 1), (''b.tar'', fi 2)]"

definition visit1 :: "(string \<times> FileInfo) list" where
  "visit1 = [(''a.tar'', fi 1), (''b.tar'', fi 2), (''c.tar'', fi 4)]"

definition run_end :: "(nat \<Rightarrow> 'r) \<Rightarrow> (string, 'r) orch" where
  "run_end outcome =
     \<lparr>pc = Returned, ranged = 2, sem = 0, wg = 0,
      gs = [(''bad:1'', Exited), (''good:1'', Exited)],
      calls = [(0, ''bad:1''), (1, ''good:1'')],
      results = [(0, outcome 0), (1, outcome 1)]\<rparr>"

section \<open>Paths and timestamps\<close>


lemma elem_end_append: "elem_end (r @ Separator # l) = elem_end r"
  by (cases r) (simp_all add: elem_end_def)

lemma takeWhile_sep:
  "takeWhile (\<lambda>x. x \<noteq> Separator) (p @ Separator # l) = takeWhile (\<lambda>x. x \<noteq> Separator) p"
  by (induction p) auto

lemma dropWhile_sep:
  "dropWhile (\<lambda>x. x \<noteq> Separator) (p @ Separator # l) =
   dropWhile (\<lambda>x. x \<noteq> Separator) p @ Separator # l"
  by (induction p) auto

lemma clean_loop_Nil: "clean_loop rooted [] out dotdot = out"
  by (simp add: clean_loop.simps)

lemma clean_loop_sep:
  "clean_loop rooted (Separator # r) out dotdot = clean_loop rooted r out dotdot"
  by (subst clean_loop.simps) simp

lemma clean_loop_dot:
  "elem_end r \<Longrightarrow> clean_loop rooted (CHR ''.'' # r) out dotdot = clean_loop rooted r out dotdot"
  by (subst clean_loop.simps) simp

lemma clean_loop_dotdot:
  "elem_end r \<Longrightarrow>
   clean_loop rooted (CHR ''.'' # CHR ''.'' # r) out dotdot =
     (if dotdot < length out then
        clean_loop rooted r (take (backtrack out dotdot (length out - 1)) out) dotdot
      else if \<not> rooted then
        clean_loop rooted r ((if out \<noteq> [] then out @ [Separator] else out) @ ''..'')
          (length ((if out \<noteq> [] then out @ [Separator] else out) @ ''..''))
      else clean_loop rooted r out dotdot)"
  by (subst clean_loop.simps) (simp add: elem_end_def Let_def)

lemma clean_loop_elem:
  "c \<noteq> Separator \<Longrightarrow> \<not> (c = CHR ''.'' \<and> elem_end r) \<Longrightarrow>
   \<not> (c = CHR ''.'' \<and> r \<noteq> [] \<and> hd r = CHR ''.'' \<and> elem_end (tl r)) \<Longrightarrow>
   clean_loop rooted (c # r) out dotdot =
     clean_loop rooted (dropWhile (\<lambda>x. x \<noteq> Separator) r)
       (add_sep rooted out @ c # takeWhile (\<lambda>x. x \<noteq> Separator) r) dotdot"
  by (subst clean_loop.simps) auto

lemma clean_loop_real:
  assumes "real_elem e"
  shows "clean_loop rooted e out dotdot = add_sep rooted out @ e"
proof -
  from assms obtain c r where e: "e = c # r"
    by (cases e) (auto simp: real_elem_def)
  from assms e have c: "c \<noteq> Separator" and r: "Separator \<notin> set r"
    by (auto simp: real_elem_def)
  have dot: "\<not> (c = CHR ''.'' \<and> elem_end r)"
    using assms e r by (cases r) (auto simp: real_elem_def elem_end_def)
  have dotdot: "\<not> (c = CHR ''.'' \<and> r \<noteq> [] \<and> hd r = CHR ''.'' \<and> elem_end (tl r))"
  proof (cases r)
    case Nil
    then show ?thesis by simp
  next
    case (Cons a r')
    with assms e r show ?thesis
      by (cases r') (auto simp: real_elem_def elem_end_def)
  qed
  have tw: "takeWhile (\<lambda>x. x \<noteq> Separator) r = r" and dw: "dropWhile (\<lambda>x. x \<noteq> Separator) r = []"
    using r by auto
  show ?thesis
    unfolding e clean_loop_elem[OF c dot dotdot] tw dw clean_loop_Nil ..
qed

lemma clean_loop_snoc:
  assumes "real_elem e"
  shows "clean_loop rooted (p @ Separator # e) out dotdot =
         add_sep rooted (clean_loop rooted p out dotdot) @ e"
proof (induction rooted p out dotdot rule: clean_loop.induct)
  case (1 rooted path out dotdot)
  show ?case
  proof (cases path)
    case Nil
    then show ?thesis
      using assms by (simp add: clean_loop_sep clean_loop_real clean_loop_Nil)
  next
    case (Cons c r)
    note IH = "1.IH"[OF Cons]
    show ?thesis
    proof (cases "c = Separator")
      case True
      then show ?thesis
        using IH(1) Cons by (simp add: clean_loop_sep)
    next
      case nsep: False
      show ?thesis
      proof (cases "c = CHR ''.'' \<and> elem_end r")
        case True
        then show ?thesis
          using IH(2)[OF nsep True] Cons by (simp add: clean_loop_dot elem_end_append)
      next
        case ndot: False
        show ?thesis
        proof (cases "c = CHR ''.'' \<and> r \<noteq> [] \<and> hd r = CHR ''.'' \<and> elem_end (tl r)")
          case True
          then obtain r' where r: "r = CHR ''.'' # r'" and e': "elem_end r'"
            by (cases r) auto
          have e'': "elem_end (r' @ Separator # e)"
            using e' by (simp add: elem_end_append)
          show ?thesis
            using IH(3)[OF nsep ndot True] IH(4)[OF nsep ndot True] IH(5)[OF nsep ndot True]
              True
            by (simp add: Cons r clean_loop_dotdot[OF e'] clean_loop_dotdot[OF e''] Let_def)
        next
          case ndd: False
          have ndot': "\<not> (c = CHR ''.'' \<and> elem_end (r @ Separator # e))"
            using ndot by (simp add: elem_end_append)
          have ndd': "\<not> (c = CHR ''.'' \<and> r @ Separator # e \<noteq> [] \<and>
                        hd (r @ Separator # e) = CHR ''.'' \<and> elem_end (tl (r @ Separator # e)))"
            using ndd by (cases r) (auto simp: elem_end_append)
          have dw: "dropWhile (\<lambda>x. x \<noteq> Separator) (c # r) = dropWhile (\<lambda>x. x \<noteq> Separator) r"
            and tw: "takeWhile (\<lambda>x. x \<noteq> Separator) (c # r) = c # takeWhile (\<lambda>x. x \<noteq> Separator) r"
            using nsep by simp_all
          show ?thesis
            using IH(6)[OF nsep ndot ndd]
            unfolding Cons append_Cons clean_loop_elem[OF nsep ndot ndd]
              clean_loop_elem[OF nsep ndot' ndd'] takeWhile_sep dropWhile_sep dw tw .
        qed
      qed
    qed
  qed
qed


lemma backtrack_ge: "dotdot \<le> w \<Longrightarrow> dotdot \<le> backtrack buf dotdot w"
proof (induction buf dotdot w rule: backtrack.induct)
  case (1 buf dotdot w)
  then show ?case
    by (subst backtrack.simps) auto
qed

lemma clean_loop_rooted:
  "rooted \<Longrightarrow> out \<noteq> [] \<Longrightarrow> hd out = Separator \<Longrightarrow> 1 \<le> dotdot \<Longrightarrow>
   clean_loop rooted p out dotdot \<noteq> [] \<and> hd (clean_loop rooted p out dotdot) = Separator"
proof (induction rooted p out dotdot rule: clean_loop.induct)
  case (1 rooted path out dotdot)
  show ?case
  proof (cases path)
    case Nil
    then show ?thesis using "1.prems" by (simp add: clean_loop_Nil)
  next
    case (Cons c r)
    note IH = "1.IH"[OF Cons]
    show ?thesis
    proof (cases "c = Separator")
      case True
      then show ?thesis
        using IH(1) "1.prems" Cons by (simp add: clean_loop_sep)
    next
      case nsep: False
      show ?thesis
      proof (cases "c = CHR ''.'' \<and> elem_end r")
        case True
        then show ?thesis
          using IH(2)[OF nsep True] "1.prems" Cons by (simp add: clean_loop_dot)
      next
        case ndot: False
        show ?thesis
        proof (cases "c = CHR ''.'' \<and> r \<noteq> [] \<and> hd r = CHR ''.'' \<and> elem_end (tl r)")
          case True
          then obtain r' where r: "r = CHR ''.'' # r'" and e': "elem_end r'"
            by (cases r) auto
          show ?thesis
          proof (cases "dotdot < length out")
            case lt: True
            let ?w = "backtrack out dotdot (length out - 1)"
            have "dotdot \<le> ?w"
              using lt by (intro backtrack_ge) simp
            with "1.prems" have w: "1 \<le> ?w" by simp
            then have "take ?w out \<noteq> []" "hd (take ?w out) = Separator"
              using "1.prems" by (cases out; cases ?w; simp)+
            with IH(3)[OF nsep ndot True lt] "1.prems" True lt show ?thesis
              by (simp add: Cons r clean_loop_dotdot[OF e'])
          next
            case False
            with IH(5)[OF nsep ndot True False] "1.prems" True show ?thesis
              by (simp add: Cons r clean_loop_dotdot[OF e'])
          qed
        next
          case ndd: False
          have "add_sep rooted out @ takeWhile (\<lambda>x. x \<noteq> Separator) path \<noteq> []"
            "hd (add_sep rooted out @ takeWhile (\<lambda>x. x \<noteq> Separator) path) = Separator"
            using "1.prems" by (auto simp: add_sep_def)
          with IH(6)[OF nsep ndot ndd] "1.prems" nsep show ?thesis
            by (simp add: Cons clean_loop_elem[OF nsep ndot ndd])
        qed
      qed
    qed
  qed
qed

lemma dir_prefix_sep: "dir_prefix d = [] \<or> last (dir_prefix d) = Separator"
proof -
  have "clean_loop True (tl d) [Separator] 1 \<noteq> [] \<and>
        hd (clean_loop True (tl d) [Separator] 1) = Separator"
    by (rule clean_loop_rooted) simp_all
  then have "last (add_sep True (clean_loop True (tl d) [Separator] 1)) = Separator"
    by (cases "clean_loop True (tl d) [Separator] 1") (auto simp: add_sep_def)
  then show ?thesis
    by (auto simp: dir_prefix_def add_sep_def)
qed

lemma Join_real:
  assumes "real_elem e"
  shows "Join [d, e] = dir_prefix d @ e"
proof (cases "d = []")
  case True
  from assms have e: "e \<noteq> []" "hd e \<noteq> Separator"
    by (cases e; auto simp: real_elem_def)+
  then show ?thesis
    using True assms by (simp add: Clean_def clean_loop_real add_sep_def dir_prefix_def)
next
  case False
  then obtain c r where d: "d = c # r" by (cases d) auto
  from assms have e: "e \<noteq> []" by (auto simp: real_elem_def)
  have J: "Join [d, e] = Clean (d @ Separator # e)"
    using False by simp
  show ?thesis
  proof (cases "c = Separator")
    case True
    have "clean_loop True (r @ Separator # e) [Separator] 1 =
          add_sep True (clean_loop True r [Separator] 1) @ e"
      by (rule clean_loop_snoc[OF assms])
    then show ?thesis
      using True e unfolding J by (simp add: d Clean_def dir_prefix_def)
  next
    case False
    have "clean_loop False ((c # r) @ Separator # e) [] 0 =
          add_sep False (clean_loop False (c # r) [] 0) @ e"
      by (rule clean_loop_snoc[OF assms])
    then show ?thesis
      using False e unfolding J by (simp add: d Clean_def dir_prefix_def)
  qed
qed

lemma backtrack_le: "backtrack buf dotdot w \<le> w"
proof (induction buf dotdot w rule: backtrack.induct)
  case (1 buf dotdot w)
  then show ?case
    by (subst backtrack.simps) (auto intro: le_trans)
qed

lemma backtrack_stop:
  "backtrack buf dotdot w \<le> dotdot \<or> buf ! (backtrack buf dotdot w) = Separator"
proof (induction buf dotdot w rule: backtrack.induct)
  case (1 buf dotdot w)
  then show ?case
    by (subst (1 2) backtrack.simps) auto
qed

lemma unrooted_backtrack:
  assumes "unrooted out dotdot" and "dotdot < length out"
  shows "unrooted (take (backtrack out dotdot (length out - 1)) out) dotdot"
proof -
  let ?w = "backtrack out dotdot (length out - 1)"
  have le: "?w \<le> length out - 1"
    by (rule backtrack_le)
  with assms(2) have lt: "?w < length out"
    by simp
  have ge: "dotdot \<le> ?w"
    using assms(2) by (intro backtrack_ge) simp
  have hd: "take ?w out = [] \<or> hd (take ?w out) \<noteq> Separator"
    using assms(1) by (cases out; cases ?w) (auto simp: unrooted_def)
  have dot: "take ?w out \<noteq> ''.''"
  proof
    assume d: "take ?w out = ''.''"
    then have "length (take ?w out) = 1" by simp
    with lt have w: "?w = 1" by simp
    from d w have o0: "out ! 0 = CHR ''.''"
      by (metis One_nat_def lessI nth_Cons_0 nth_take)
    from backtrack_stop[of out dotdot "length out - 1"] w
    consider "1 \<le> dotdot" | "out ! 1 = Separator"
      by auto
    then show False
    proof cases
      case 1
      with ge w assms(1) show False by (simp add: unrooted_def)
    next
      case 2
      from lt w have "2 \<le> length out" by simp
      then have "take 2 out = [out ! 0, out ! 1]"
        by (cases out; cases "tl out") auto
      with o0 2 assms(1) show False by (simp add: unrooted_def)
    qed
  qed
  have dotsl: "take 2 (take ?w out) \<noteq> ''./''"
  proof
    assume d: "take 2 (take ?w out) = ''./''"
    then have "length (take 2 (take ?w out)) = 2" by simp
    then have "2 \<le> ?w" by simp
    then have "take 2 (take ?w out) = take 2 out"
      by (simp add: min_def)
    with d assms(1) show False by (simp add: unrooted_def)
  qed
  from hd dot dotsl assms(1) show ?thesis
    by (simp add: unrooted_def)
qed

lemma unrooted_dotdot:
  assumes "unrooted out dotdot"
  shows "unrooted ((if out \<noteq> [] then out @ [Separator] else out) @ ''..'')
           (length ((if out \<noteq> [] then out @ [Separator] else out) @ ''..''))"
proof (cases out)
  case Nil
  then show ?thesis by (simp add: unrooted_def)
next
  case (Cons a as)
  with assms show ?thesis
    by (cases as) (auto simp: unrooted_def)
qed

lemma unrooted_elem:
  assumes "unrooted out dotdot" and "c \<noteq> Separator" and "\<not> (c = CHR ''.'' \<and> elem_end r)"
  shows "unrooted (add_sep False out @ c # takeWhile (\<lambda>x. x \<noteq> Separator) r) dotdot"
proof (cases out)
  case Nil
  have "takeWhile (\<lambda>x. x \<noteq> Separator) r = [] \<longleftrightarrow> elem_end r"
    by (cases r) (auto simp: elem_end_def)
  moreover have "take 1 (takeWhile (\<lambda>x. x \<noteq> Separator) r) \<noteq> [Separator]"
    by (cases r) auto
  ultimately show ?thesis
    using assms Nil by (auto simp: unrooted_def add_sep_def)
next
  case (Cons a as)
  with assms show ?thesis
    by (cases as) (auto simp: unrooted_def add_sep_def)
qed

lemma clean_loop_unrooted:
  "\<not> rooted \<Longrightarrow> unrooted out dotdot \<Longrightarrow>
   unrooted (clean_loop rooted p out dotdot) 0"
proof (induction rooted p out dotdot rule: clean_loop.induct)
  case (1 rooted path out dotdot)
  show ?case
  proof (cases path)
    case Nil
    then show ?thesis using "1.prems" by (simp add: clean_loop_Nil unrooted_def)
  next
    case (Cons c r)
    note IH = "1.IH"[OF Cons]
    show ?thesis
    proof (cases "c = Separator")
      case True
      then show ?thesis
        using IH(1) "1.prems" Cons by (simp add: clean_loop_sep)
    next
      case nsep: False
      show ?thesis
      proof (cases "c = CHR ''.'' \<and> elem_end r")
        case True
        then show ?thesis
          using IH(2)[OF nsep True] "1.prems" Cons by (simp add: clean_loop_dot)
      next
        case ndot: False
        show ?thesis
        proof (cases "c = CHR ''.'' \<and> r \<noteq> [] \<and> hd r = CHR ''.'' \<and> elem_end (tl r)")
          case True
          then obtain r' where r: "r = CHR ''.'' # r'" and e': "elem_end r'"
            by (cases r) auto
          show ?thesis
          proof (cases "dotdot < length out")
            case lt: True
            from IH(3)[OF nsep ndot True lt "1.prems"(1) unrooted_backtrack[OF "1.prems"(2) lt]]
            show ?thesis
              using lt True by (simp add: Cons r clean_loop_dotdot[OF e'])
          next
            case False
            from IH(4)[OF nsep ndot True False "1.prems"(1) refl "1.prems"(1)
                unrooted_dotdot[OF "1.prems"(2)]]
            show ?thesis
              using False True "1.prems"(1) by (simp add: Cons r clean_loop_dotdot[OF e'])
          qed
        next
          case ndd: False
          have tw: "takeWhile (\<lambda>x. x \<noteq> Separator) path = c # takeWhile (\<lambda>x. x \<noteq> Separator) r"
            using nsep Cons by simp
          from IH(6)[OF nsep ndot ndd "1.prems"(1)] unrooted_elem[OF "1.prems"(2) nsep ndot]
            "1.prems"(1) nsep
          show ?thesis
            by (simp add: Cons clean_loop_elem[OF nsep ndot ndd] tw)
        qed
      qed
    qed
  qed
qed

lemma dir_prefix_part: "dir_prefix d = dir_part d"
proof (cases "d = []")
  case True
  then show ?thesis by (simp add: dir_prefix_def dir_part_def)
next
  case False
  show ?thesis
  proof (cases "hd d = Separator")
    case True
    let ?X = "clean_loop True (tl d) [Separator] 1"
    have X: "?X \<noteq> [] \<and> hd ?X = Separator"
      by (rule clean_loop_rooted) simp_all
    then have c: "Clean d = ?X"
      using False True by (simp add: Clean_def)
    from X have "?X \<noteq> ''.''"
      by auto
    moreover from X have "length ?X = 1 \<longleftrightarrow> ?X = [Separator]"
      by (cases ?X) auto
    ultimately show ?thesis
      using False True c by (auto simp: dir_prefix_def dir_part_def add_sep_def)
  next
    case nr: False
    let ?X = "clean_loop False d [] 0"
    have "unrooted [] 0" by (simp add: unrooted_def)
    from clean_loop_unrooted[OF _ this, of False d] have u: "unrooted ?X 0"
      by simp
    show ?thesis
    proof (cases "?X = []")
      case True
      with False nr show ?thesis
        by (simp add: dir_prefix_def dir_part_def add_sep_def Clean_def)
    next
      case ne: False
      with False nr have c: "Clean d = ?X"
        by (simp add: Clean_def)
      from u ne have "?X \<noteq> ''.''" "?X \<noteq> [Separator]"
        by (auto simp: unrooted_def)
      with False nr c ne show ?thesis
        by (simp add: dir_prefix_def dir_part_def add_sep_def)
    qed
  qed
qed

lemma ReplaceAll_map:
  "ReplaceAll s old [new] = map (\<lambda>c. if c = old then new else c) s"
  by (induction s) (simp_all add: ReplaceAll_def)

lemma safeImageName_map:
  "safeImageName s = map (\<lambda>c. if c = CHR ''/'' \<or> c = CHR '':'' then CHR ''_'' else c) s"
  by (simp add: safeImageName_def ReplaceAll_map)

lemma digit_in: "d < 10 \<Longrightarrow> digit d \<in> set ''0123456789''"
  unfolding digit_def by (rule nth_mem) simp

lemma utod_digits: "set (utod u) \<subseteq> set ''0123456789''"
proof (induction u rule: utod.induct)
  case (1 u)
  show ?case
  proof (cases "u < 10")
    case True
    then show ?thesis
      using digit_in[of u] by (subst utod.simps) simp
  next
    case False
    then show ?thesis
      using "1.IH" digit_in[of "u mod 10"] by (subst utod.simps) simp
  qed
qed

lemma appendInt_chars: "set (appendInt x w) \<subseteq> set ''-0123456789''"
proof
  fix c
  assume "c \<in> set (appendInt x w)"
  then consider "c = CHR ''-''" | "c = CHR ''0''" | "c \<in> set (utod (nat \<bar>x\<bar>))"
    unfolding appendInt_def Let_def by (auto split: if_splits)
  then show "c \<in> set ''-0123456789''"
  proof cases
    case 1
    then show ?thesis by simp
  next
    case 2
    then show ?thesis by simp
  next
    case 3
    with utod_digits[of "nat \<bar>x\<bar>"] have "c \<in> set ''0123456789''" by blast
    then show ?thesis by simp
  qed
qed

lemma Format_chars: "set (Format t) \<subseteq> set ''-0123456789''"
proof -
  have "set ''-'' \<subseteq> set ''-0123456789''" by simp
  then show ?thesis
    unfolding Format_def set_append Un_subset_iff
    by (intro conjI appendInt_chars)
qed

lemma leaf_real: "real_elem (safeImageName item @ ''-'' @ Format now @ ''.tar'')"
proof -
  let ?leaf = "safeImageName item @ ''-'' @ Format now @ ''.tar''"
  have "Separator \<notin> set (Format now)"
    using Format_chars[of now] by auto
  moreover have "Separator \<notin> set (safeImageName item)"
    by (auto simp: safeImageName_map)
  ultimately have sep: "Separator \<notin> set ?leaf"
    by simp
  have len: "5 \<le> length ?leaf"
    by simp
  have ne: "?leaf \<noteq> s" if "length s < 5" for s
  proof
    assume "?leaf = s"
    then have "length ?leaf = length s" by (rule arg_cong)
    with len that show False by linarith
  qed
  have "?leaf \<noteq> []" "?leaf \<noteq> ''.''" "?leaf \<noteq> ''..''"
    by (rule ne, simp)+
  with sep show ?thesis
    unfolding real_elem_def by blast
qed


lemma dec_zero: "dec w 0 = replicate w (CHR ''0'')"
  by (induction w) (simp_all add: digit_def replicate_append_same)

lemma pad_utod:
  "0 < w \<Longrightarrow> n < 10 ^ w \<Longrightarrow> replicate (w - length (utod n)) (CHR ''0'') @ utod n = dec w n"
proof (induction w arbitrary: n)
  case 0
  then show ?case by simp
next
  case (Suc w)
  show ?case
  proof (cases "n < 10")
    case True
    then have "utod n = [digit n]" by (subst utod.simps) simp
    with True show ?thesis by (simp add: dec_zero)
  next
    case False
    then have u: "utod n = utod (n div 10) @ [digit (n mod 10)]"
      by (subst utod.simps) simp
    from False Suc.prems have w: "0 < w" by (cases w) auto
    from Suc.prems have "n div 10 < 10 ^ w" by (simp add: less_mult_imp_div_less mult.commute)
    from Suc.IH[OF w this] show ?thesis
      by (simp add: u)
  qed
qed

lemma appendInt_dec:
  "0 \<le> x \<Longrightarrow> x < 10 ^ w \<Longrightarrow> 0 < w \<Longrightarrow> appendInt x w = dec w (nat x)"
proof -
  assume x: "0 \<le> x" "x < 10 ^ w" and w: "0 < w"
  then have "nat x < 10 ^ w"
    by (metis nat_less_iff of_nat_numeral of_nat_power)
  from pad_utod[OF w this] x show ?thesis
    by (simp add: appendInt_def Let_def)
qed

lemma Format_shape: "clock_time t \<Longrightarrow> Format t = YYYYMMDD_HHMMSS t"
  unfolding clock_time_def Format_def YYYYMMDD_HHMMSS_def
  by (simp add: appendInt_dec del: dec.simps)



section \<open>The restore pipeline: which load path is taken\<close>


lemma HasSuffix_suffix: "HasSuffix s sfx = suffix sfx s"
proof
  assume h: "HasSuffix s sfx"
  then have "s = take (length s - length sfx) s @ sfx"
    by (metis HasSuffix_def append_take_drop_id)
  then show "suffix sfx s"
    by (metis suffixI)
next
  assume "suffix sfx s"
  then obtain p where "s = p @ sfx" by (auto simp: suffix_def)
  then show "HasSuffix s sfx" by (simp add: HasSuffix_def)
qed

lemma execs_append: "execs (xs @ ys) = execs xs @ execs ys"
  by (induction xs rule: execs.induct) simp_all

lemma reports_append: "reports (xs @ ys) = reports xs @ reports ys"
  by (induction xs rule: reports.induct) simp_all

lemma execs_restoreImage:
  "execs (restoreImage config sys path) =
     [if compressed sys path then gunzip_load path else docker_load path]"
  by (simp add: restoreImage_def execs_append Let_def split: prod.splits option.splits)

lemma reports_restoreImage:
  "reports (restoreImage config sys path) =
     (let cmd = (if compressed sys path then gunzip_load path else docker_load path)
      in case CombinedOutput sys cmd of
           (output, Some err) \<Rightarrow>
             [LogPrintf ''Failed to load image from %s: %v\<newline>%s'' [Str path, Str err, Str output]]
         | (output, None) \<Rightarrow> [])"
  by (simp add: restoreImage_def reports_append Let_def split: prod.splits option.splits)

lemma load_cmds_differ: "gunzip_load p \<noteq> docker_load q"
  by (simp add: gunzip_load_def docker_load_def)

text \<open>
  C1. The compression kind of a restore work item is decided in strict priority order:
  a path that ends in \<open>.tar.gz\<close> or \<open>.tgz\<close> is loaded through \<open>gunzip\<close> whatever its
  sidecar says; otherwise, when the sidecar at the path followed by \<open>.json\<close> can be read
  and parses, the item is loaded through \<open>gunzip\<close> exactly when the \<open>compress_type\<close> of
  the sidecar is \<open>gzip\<close>; otherwise it is loaded uncompressed.
\<close>

theorem restore_detection_priority:
  "(suffix ''.tar.gz'' path \<or> suffix ''.tgz'' path \<longrightarrow>
      execs (restoreImage config sys path) = [gunzip_load path]) \<and>
   (\<not> suffix ''.tar.gz'' path \<and> \<not> suffix ''.tgz'' path \<and>
    Stat_ok sys (path @ ''.json'') \<and> Open sys (path @ ''.json'') = Some content \<and>
    Decode sys content = Some info \<longrightarrow>
      execs (restoreImage config sys path) =
        [if InfoCompressType info = ''gzip'' then gunzip_load path else docker_load path]) \<and>
   (\<not> suffix ''.tar.gz'' path \<and> \<not> suffix ''.tgz'' path \<and>
    \<not> (Stat_ok sys (path @ ''.json'') \<and>
       (\<exists>content info. Open sys (path @ ''.json'') = Some content \<and>
                        Decode sys content = Some info)) \<longrightarrow>
      execs (restoreImage config sys path) = [docker_load path])"
  unfolding execs_restoreImage
  by (auto simp: compressed_def HasSuffix_suffix Let_def split: option.splits)

theorem restore_detection_priority_witness:
  "suffix ''.tar.gz'' ''img.tar.gz'' \<and>
   execs (restoreImage config0 (sys_sidecar ''img.tar.gz.json'' ''none'') ''img.tar.gz'') =
     [gunzip_load ''img.tar.gz''] \<and>
   \<not> suffix ''.tar.gz'' ''img.tar'' \<and> \<not> suffix ''.tgz'' ''img.tar'' \<and>
   execs (restoreImage config0 (sys_sidecar ''img.tar.json'' ''gzip'') ''img.tar'') =
     [gunzip_load ''img.tar''] \<and>
   execs (restoreImage config0 (sys_sidecar ''img.tar.json'' ''none'') ''img.tar'') =
     [docker_load ''img.tar''] \<and>
   execs (restoreImage config0 sys_bare ''img.tar'') = [docker_load ''img.tar'']"
proof -
  have s1: "suffix ''.tar.gz'' ''img.tar.gz''"
    by (simp add: suffix_def)
  have n1: "\<not> suffix ''.tar.gz'' ''img.tar''" and n2: "\<not> suffix ''.tgz'' ''img.tar''"
    by (simp_all add: HasSuffix_suffix[symmetric] HasSuffix_def)
  note a = restore_detection_priority[of "''img.tar.gz''" config0
      "sys_sidecar ''img.tar.gz.json'' ''none''"]
  note b = restore_detection_priority[of "''img.tar''" config0
      "sys_sidecar ''img.tar.json'' ''gzip''" "''gzip''"
      "\<lparr>ImageName = ''demo:1.0'', ImageID = ''sha256:0'', Tags = [],
                           Size = 0, BackupDate = \<lparr>Year = 2023, Month = 6, Day = 15,
                             Hour = 12, Minute = 5, Second = 30\<rparr>,
                           InfoCompressType = ''gzip''\<rparr>"]
  note c = restore_detection_priority[of "''img.tar''" config0
      "sys_sidecar ''img.tar.json'' ''none''" "''none''"
      "\<lparr>ImageName = ''demo:1.0'', ImageID = ''sha256:0'', Tags = [],
                           Size = 0, BackupDate = \<lparr>Year = 2023, Month = 6, Day = 15,
                             Hour = 12, Minute = 5, Second = 30\<rparr>,
                           InfoCompressType = ''none''\<rparr>"]
  note d = restore_detection_priority[of "''img.tar''" config0 sys_bare]
  have A: "execs (restoreImage config0 (sys_sidecar ''img.tar.gz.json'' ''none'') ''img.tar.gz'') =
     [gunzip_load ''img.tar.gz'']"
    using a s1 by blast
  have B: "execs (restoreImage config0 (sys_sidecar ''img.tar.json'' ''gzip'') ''img.tar'') =
     [gunzip_load ''img.tar'']"
    using b n1 n2 by (simp add: sys_sidecar_def)
  have C: "execs (restoreImage config0 (sys_sidecar ''img.tar.json'' ''none'') ''img.tar'') =
     [docker_load ''img.tar'']"
    using c n1 n2 by (simp add: sys_sidecar_def)
  have D: "execs (restoreImage config0 sys_bare ''img.tar'') = [docker_load ''img.tar'']"
    using d n1 n2 by (simp add: sys_bare_def)
  from s1 n1 n2 A B C D show ?thesis by blast
qed

section \<open>Naming and the round trip\<close>

lemma compressed_suffix:
  "suffix ''.tar.gz'' path \<or> suffix ''.tgz'' path \<Longrightarrow> compressed sys path"
  by (auto simp: compressed_def HasSuffix_suffix)

text \<open>
  C10. When the path has no recognized compressed suffix and the sidecar can be read and
  parses, the item is loaded through \<open>gunzip\<close> only if the \<open>compress_type\<close> of the sidecar
  is exactly the string \<open>gzip\<close>. Any other value selects the uncompressed load, and
  nothing is reported for it: the only report the pipeline can then make is that of a load
  that failed.
\<close>

theorem sidecar_needs_exact_gzip:
  assumes "\<not> suffix ''.tar.gz'' path" and "\<not> suffix ''.tgz'' path"
    and "Stat_ok sys (path @ ''.json'')"
    and "Open sys (path @ ''.json'') = Some content"
    and "Decode sys content = Some info"
  shows "(execs (restoreImage config sys path) = [gunzip_load path] \<longleftrightarrow>
            InfoCompressType info = ''gzip'') \<and>
         (InfoCompressType info \<noteq> ''gzip'' \<longrightarrow>
            execs (restoreImage config sys path) = [docker_load path] \<and>
            reports (restoreImage config sys path) =
              (case CombinedOutput sys (docker_load path) of
                 (output, Some err) \<Rightarrow>
                   [LogPrintf ''Failed to load image from %s: %v\<newline>%s''
                      [Str path, Str err, Str output]]
               | (output, None) \<Rightarrow> []))"
proof -
  have c: "compressed sys path = (InfoCompressType info = ''gzip'')"
    using assms by (simp add: compressed_def HasSuffix_suffix Let_def)
  show ?thesis
    unfolding execs_restoreImage reports_restoreImage c
    by (simp add: load_cmds_differ load_cmds_differ[symmetric] Let_def)
qed

theorem sidecar_needs_exact_gzip_witness:
  "\<not> suffix ''.tar.gz'' ''img.tar'' \<and> \<not> suffix ''.tgz'' ''img.tar'' \<and>
   execs (restoreImage config0 (sys_sidecar ''img.tar.json'' ''GZIP'') ''img.tar'') =
     [docker_load ''img.tar''] \<and>
   reports (restoreImage config0 (sys_sidecar ''img.tar.json'' ''GZIP'') ''img.tar'') = [] \<and>
   execs (restoreImage config0 (sys_sidecar ''img.tar.json'' ''bzip2'') ''img.tar'') =
     [docker_load ''img.tar''] \<and>
   execs (restoreImage config0 (sys_sidecar ''img.tar.json'' []) ''img.tar'') =
     [docker_load ''img.tar''] \<and>
   execs (restoreImage config0 (sys_sidecar ''img.tar.json'' ''gzip'') ''img.tar'') =
     [gunzip_load ''img.tar'']"
proof -
  have n1: "\<not> suffix ''.tar.gz'' ''img.tar''" and n2: "\<not> suffix ''.tgz'' ''img.tar''"
    by (simp_all add: HasSuffix_suffix[symmetric] HasSuffix_def)
  have w: "execs (restoreImage config0 (sys_sidecar ''img.tar.json'' kind) ''img.tar'') =
             [if kind = ''gzip'' then gunzip_load ''img.tar'' else docker_load ''img.tar''] \<and>
           (kind \<noteq> ''gzip'' \<longrightarrow>
              reports (restoreImage config0 (sys_sidecar ''img.tar.json'' kind) ''img.tar'') = [])"
    for kind
    using sidecar_needs_exact_gzip[OF n1 n2, of "sys_sidecar ''img.tar.json'' kind" kind
        "\<lparr>ImageName = ''demo:1.0'', ImageID = ''sha256:0'', Tags = [],
          Size = 0, BackupDate = \<lparr>Year = 2023, Month = 6, Day = 15,
            Hour = 12, Minute = 5, Second = 30\<rparr>,
          InfoCompressType = kind\<rparr>" config0]
    by (auto simp: sys_sidecar_def)
  from n1 n2 w[of "''GZIP''"] w[of "''bzip2''"] w[of "[]"] w[of "''gzip''"]
  show ?thesis by simp
qed

lemma tarballName_eq:
  "tarballName config item now =
     dir_prefix (BackupDir config) @ safeImageName item @ ''-'' @ Format now @ ''.tar'' @
     (if CompressType config = ''gzip'' then ''.gz'' else [])"
  unfolding tarballName_def Let_def Join_real[OF leaf_real] by simp

text \<open>
  C4. Round trip: the archive path that the naming step of the backup pipeline produces
  under compression kind \<open>gzip\<close>, given to the restore pipeline as a work item, is loaded
  through \<open>gunzip\<close>, whatever the sidecar, the item, the time and the directory.
\<close>

theorem backup_name_restores_as_gzip:
  assumes "CompressType config = ''gzip''"
  shows "execs (restoreImage config' sys (tarballName config item now)) =
           [gunzip_load (tarballName config item now)]"
proof -
  have "tarballName config item now =
      (dir_prefix (BackupDir config) @ safeImageName item @ ''-'' @ Format now) @ ''.tar.gz''"
    unfolding tarballName_eq using assms by simp
  then have "suffix ''.tar.gz'' (tarballName config item now)"
    by (rule suffixI)
  then have "compressed sys (tarballName config item now)"
    by (simp add: compressed_suffix)
  then show ?thesis
    by (simp add: execs_restoreImage)
qed

lemma utod_small: "u < 10 \<Longrightarrow> utod u = [digit u]"
  by (subst utod.simps) simp

lemma utod_step: "\<not> u < 10 \<Longrightarrow> utod u = utod (u div 10) @ [digit (u mod 10)]"
  by (subst utod.simps) simp

lemma Format_stamp0: "Format stamp0 = ''20230615-120530''"
  by (simp add: Format_def stamp0_def appendInt_def utod_step utod_small digit_def)

lemma tarballName_demo:
  "tarballName config0 ''demo:1.0'' stamp0 = ''docker-backups/demo_1.0-20230615-120530.tar.gz''"
proof -
  have d: "dir_prefix ''docker-backups'' = ''docker-backups/''"
    by (simp add: dir_prefix_def clean_loop_elem elem_end_def clean_loop_Nil add_sep_def)
  show ?thesis
    unfolding tarballName_eq Format_stamp0
    by (simp add: config0_def d safeImageName_map)
qed

theorem backup_name_restores_as_gzip_witness:
  "CompressType config0 = ''gzip'' \<and>
   execs (restoreImage config0 sys_bare (tarballName config0 ''demo:1.0'' stamp0)) =
     [gunzip_load ''docker-backups/demo_1.0-20230615-120530.tar.gz'']"
proof -
  have g: "CompressType config0 = ''gzip''"
    by (simp add: config0_def)
  from backup_name_restores_as_gzip[OF g, of config0 sys_bare "''demo:1.0''" stamp0] g
  show ?thesis
    unfolding tarballName_demo by simp
qed

lemma sanitized_chars:
  "CHR ''/'' \<notin> set (sanitized item)" "CHR '':'' \<notin> set (sanitized item)"
  by (auto simp: sanitized_def)

text \<open>
  C5. The archive path is the backup directory as \<open>filepath.Clean\<close> writes it, with a
  separator at its end (nothing for the current directory), followed by the single path
  element \<open>{sanitized item}-{YYYYMMDD-HHMMSS}.tar\<close>, with \<open>.gz\<close> appended exactly when the
  configured compression kind is \<open>gzip\<close>. The sanitized item is the item with each \<open>/\<close>
  and each \<open>:\<close> replaced by \<open>_\<close>, so it contains neither. The stamp is \<open>Format now\<close>, which
  has the shape \<open>YYYYMMDD-HHMMSS\<close> for a time of day on a date with a year of at most four
  digits. The sidecar path is the archive path followed by \<open>.json\<close>.
\<close>

theorem archive_naming:
  "tarballName config item now =
     dir_part (BackupDir config) @ sanitized item @ ''-'' @ Format now @ ''.tar'' @
     (if CompressType config = ''gzip'' then ''.gz'' else []) \<and>
   (dir_part (BackupDir config) = [] \<or> last (dir_part (BackupDir config)) = Separator) \<and>
   Separator \<notin> set (sanitized item @ ''-'' @ Format now @ ''.tar'' @
     (if CompressType config = ''gzip'' then ''.gz'' else [])) \<and>
   (clock_time now \<longrightarrow> Format now = YYYYMMDD_HHMMSS now) \<and>
   safeImageName item = sanitized item \<and>
   CHR ''/'' \<notin> set (safeImageName item) \<and> CHR '':'' \<notin> set (safeImageName item) \<and>
   metadataPath (tarballName config item now) = tarballName config item now @ ''.json''"
proof -
  have s: "safeImageName item = sanitized item"
    by (simp add: safeImageName_map sanitized_def)
  have f: "Separator \<notin> set (Format now)"
    using Format_chars[of now] by auto
  show ?thesis
    using dir_prefix_sep[of "BackupDir config"] f sanitized_chars[of item]
    by (simp add: tarballName_eq s Format_shape metadataPath_def dir_prefix_part[symmetric])
qed

lemma clock_stamp0: "clock_time stamp0"
  by (simp add: clock_time_def stamp0_def)

theorem archive_naming_witness:
  "clock_time stamp0 \<and> Format stamp0 = YYYYMMDD_HHMMSS stamp0 \<and>
   YYYYMMDD_HHMMSS stamp0 = ''20230615-120530'' \<and>
   tarballName config0 ''registry.example.com/app:v2'' stamp0 =
     ''docker-backups/registry.example.com_app_v2-20230615-120530.tar.gz''"
proof -
  note n = archive_naming[of config0 "''registry.example.com/app:v2''" stamp0]
  from n clock_stamp0 have shape: "Format stamp0 = YYYYMMDD_HHMMSS stamp0"
    by blast
  have d: "dir_part ''docker-backups'' = ''docker-backups/''"
    unfolding dir_prefix_part[symmetric]
    by (simp add: dir_prefix_def clean_loop_elem elem_end_def clean_loop_Nil add_sep_def)
  from n have "tarballName config0 ''registry.example.com/app:v2'' stamp0 =
     dir_part (BackupDir config0) @ sanitized ''registry.example.com/app:v2'' @ ''-'' @
     Format stamp0 @ ''.tar'' @ (if CompressType config0 = ''gzip'' then ''.gz'' else [])"
    by blast
  then have t: "tarballName config0 ''registry.example.com/app:v2'' stamp0 =
     ''docker-backups/registry.example.com_app_v2-20230615-120530.tar.gz''"
    unfolding Format_stamp0 by (simp add: config0_def d sanitized_def)
  from shape have "YYYYMMDD_HHMMSS stamp0 = ''20230615-120530''"
    by (simp add: Format_stamp0)
  with clock_stamp0 shape t show ?thesis by blast
qed

subsection \<open>The library functions on examples\<close>

text \<open>
  The model of \<open>filepath.Clean\<close>, \<open>filepath.Join\<close> and the layout on inputs of which Go's
  results are known (the first two from the tables of Go's own tests).
\<close>

lemmas clean_eval = Clean_def clean_loop_sep clean_loop_dot clean_loop_dotdot clean_loop_elem
  clean_loop_Nil elem_end_def add_sep_def backtrack.simps

lemma Clean_examples:
  "Clean [] = ''.''"
  "Clean ''abc//def//ghi'' = ''abc/def/ghi''"
  "Clean ''abc/def/../../..'' = ''..''"
  "Clean ''/abc/def/../../..'' = ''/''"
  "Clean ''abc/def/../../../ghi/jkl/../../../mno'' = ''../../mno''"
  "Clean ''/../abc'' = ''/abc''"
  "Clean ''abc/../../././../def'' = ''../../def''"
  by (simp_all add: clean_eval)

lemma Join_examples:
  "Join [''a'', ''b''] = ''a/b''"
  "Join [''a'', []] = ''a''"
  "Join [[], ''b''] = ''b''"
  "Join [''/'', ''a''] = ''/a''"
  "Join [''a/'', ''b''] = ''a/b''"
  "Join [[], []] = []"
  by (simp_all add: clean_eval)

lemma Format_examples:
  "Format \<lparr>Year = 2023, Month = 6, Day = 15, Hour = 12, Minute = 5, Second = 30\<rparr> =
     ''20230615-120530''"
  "Format \<lparr>Year = 12345, Month = 1, Day = 2, Hour = 3, Minute = 4, Second = 5\<rparr> =
     ''123450102-030405''"
  by (simp_all add: Format_def appendInt_def utod_step utod_small digit_def)

section \<open>The backup pipeline: a sidecar that cannot be written\<close>

lemma metadataPath_neq: "metadataPath p \<noteq> p"
  by (simp add: metadataPath_def)

lemma write_sidecar_frame:
  "p \<noteq> metadataPath tarball \<Longrightarrow> snd (write_sidecar sys item tarball info fs) p = fs p"
  by (simp add: write_sidecar_def split: option.splits prod.splits)

lemma write_sidecar_create_fails:
  "Create_err sys (metadataPath tarball) = Some err \<Longrightarrow>
   write_sidecar sys item tarball info fs =
     ([LogPrintf ''Failed to create metadata file for %s: %v'' [Str item, Str err]], fs)"
  by (simp add: write_sidecar_def)

lemma write_sidecar_encode_fails:
  "Create_err sys (metadataPath tarball) = None \<Longrightarrow>
   Encode_err sys (metadataPath tarball) = Some (err, n) \<Longrightarrow>
   write_sidecar sys item tarball info fs =
     ([LogPrintf ''Failed to write metadata for %s: %v'' [Str item, Str err]],
      fs(metadataPath tarball \<mapsto> take n (Marshal sys info)))"
  by (simp add: write_sidecar_def)

lemma backupImage_saved:
  assumes "ImageInspectWithRaw sys item = Inr img"
    and "Run sys (save_cmd config item (tarballName config item (Now sys))) fs = (None, fs1)"
  shows "backupImage config sys item fs =
     (let tarball = tarballName config item (Now sys);
          w = write_sidecar sys item tarball
                \<lparr>ImageName = item, ImageID = img_ID img, Tags = img_RepoTags img,
                 Size = img_Size img, BackupDate = Now2 sys,
                 InfoCompressType = CompressType config\<rparr> fs1
      in ((if Verbose config then [Printf ''Starting backup of image: %s\<newline>'' [Str item]]
           else []) @
          (if CompressType config = ''gzip''
           then [Printf ''Saving image %s to %s (gzip compressed)...\<newline>''
                   [Str item, Str tarball]]
           else [Printf ''Saving image %s to %s...\<newline>'' [Str item, Str tarball]]) @
          [Exec (save_cmd config item tarball)] @ fst w, snd w))"
  using assms by (simp add: backupImage_def Let_def split: prod.splits)

text \<open>
  C7. After a save that succeeded, a failure to create or to write the sidecar is reported
  (one report, the last event of the pipeline) and ends the pipeline of that item before
  its message of success. It retracts nothing: the archive path, and every path other than
  the sidecar path, holds what the save left there, and when the sidecar could not even be
  created the files are exactly those the save left.
\<close>

theorem sidecar_failure_keeps_archive:
  assumes "ImageInspectWithRaw sys item = Inr img"
    and "Run sys (save_cmd config item (tarballName config item (Now sys))) fs = (None, fs1)"
    and "Create_err sys (metadataPath (tarballName config item (Now sys))) \<noteq> None \<or>
         Encode_err sys (metadataPath (tarballName config item (Now sys))) \<noteq> None"
  shows "snd (backupImage config sys item fs) (tarballName config item (Now sys)) =
           fs1 (tarballName config item (Now sys)) \<and>
         (\<forall>p. p \<noteq> metadataPath (tarballName config item (Now sys)) \<longrightarrow>
              snd (backupImage config sys item fs) p = fs1 p) \<and>
         (Create_err sys (metadataPath (tarballName config item (Now sys))) \<noteq> None \<longrightarrow>
            snd (backupImage config sys item fs) = fs1) \<and>
         (\<exists>f err. f \<in> {''Failed to create metadata file for %s: %v'',
                         ''Failed to write metadata for %s: %v''} \<and>
            reports (fst (backupImage config sys item fs)) = [LogPrintf f [Str item, Str err]] \<and>
            last (fst (backupImage config sys item fs)) = LogPrintf f [Str item, Str err]) \<and>
         (\<forall>args. Printf ''Successfully backed up image %s to %s\<newline>'' args
              \<notin> set (fst (backupImage config sys item fs)))"
proof -
  let ?t = "tarballName config item (Now sys)"
  let ?info = "\<lparr>ImageName = item, ImageID = img_ID img, Tags = img_RepoTags img,
                 Size = img_Size img, BackupDate = Now2 sys,
                 InfoCompressType = CompressType config\<rparr>"
  note b = backupImage_saved[OF assms(1,2)]
  have frame: "snd (backupImage config sys item fs) p = fs1 p" if "p \<noteq> metadataPath ?t" for p
    using that by (simp add: b Let_def write_sidecar_frame)
  have arch: "snd (backupImage config sys item fs) ?t = fs1 ?t"
    by (rule frame) (simp add: metadataPath_def)
  consider err where "Create_err sys (metadataPath ?t) = Some err"
    | err n where "Create_err sys (metadataPath ?t) = None"
        "Encode_err sys (metadataPath ?t) = Some (err, n)"
    using assms(3) by (cases "Create_err sys (metadataPath ?t)") auto
  then show ?thesis
  proof cases
    case 1
    note w = write_sidecar_create_fails[OF 1, of item ?info fs1]
    have "reports (fst (backupImage config sys item fs)) =
            [LogPrintf ''Failed to create metadata file for %s: %v'' [Str item, Str err]]"
      "last (fst (backupImage config sys item fs)) =
            LogPrintf ''Failed to create metadata file for %s: %v'' [Str item, Str err]"
      "snd (backupImage config sys item fs) = fs1"
      "\<forall>args. Printf ''Successfully backed up image %s to %s\<newline>'' args
              \<notin> set (fst (backupImage config sys item fs))"
      by (simp_all add: b Let_def w reports_append)
    with arch frame show ?thesis by blast
  next
    case 2
    note w = write_sidecar_encode_fails[OF 2, of item ?info fs1]
    have "reports (fst (backupImage config sys item fs)) =
            [LogPrintf ''Failed to write metadata for %s: %v'' [Str item, Str err]]"
      "last (fst (backupImage config sys item fs)) =
            LogPrintf ''Failed to write metadata for %s: %v'' [Str item, Str err]"
      "\<forall>args. Printf ''Successfully backed up image %s to %s\<newline>'' args
              \<notin> set (fst (backupImage config sys item fs))"
      by (simp_all add: b Let_def w reports_append)
    with arch frame 2 show ?thesis by blast
  qed
qed

theorem sidecar_failure_keeps_archive_witness:
  "snd (backupImage config0 sys_orphan ''demo:1.0'' Map.empty)
     ''docker-backups/demo_1.0-20230615-120530.tar.gz'' = Some ''ARCHIVE'' \<and>
   snd (backupImage config0 sys_orphan ''demo:1.0'' Map.empty)
     ''docker-backups/demo_1.0-20230615-120530.tar.gz.json'' = None"
proof -
  let ?t = "''docker-backups/demo_1.0-20230615-120530.tar.gz''"
  let ?fs1 = "Map.empty(?t \<mapsto> ''ARCHIVE'')"
  have t: "tarballName config0 ''demo:1.0'' (Now sys_orphan) = ?t"
    using tarballName_demo by (simp add: sys_orphan_def)
  have i: "ImageInspectWithRaw sys_orphan ''demo:1.0'' =
             Inr \<lparr>img_ID = ''sha256:0'', img_RepoTags = [''demo:1.0''], img_Size = 7\<rparr>"
    by (simp add: sys_orphan_def)
  have r: "Run sys_orphan (save_cmd config0 ''demo:1.0''
             (tarballName config0 ''demo:1.0'' (Now sys_orphan))) Map.empty = (None, ?fs1)"
    by (simp add: sys_orphan_def)
  have c: "Create_err sys_orphan (metadataPath (tarballName config0 ''demo:1.0'' (Now sys_orphan)))
             \<noteq> None \<or>
           Encode_err sys_orphan (metadataPath (tarballName config0 ''demo:1.0'' (Now sys_orphan)))
             \<noteq> None"
    by (simp add: sys_orphan_def)
  note k = sidecar_failure_keeps_archive[OF i r c]
  from k have a: "snd (backupImage config0 sys_orphan ''demo:1.0'' Map.empty) ?t = ?fs1 ?t"
    unfolding t by blast
  from k c have "snd (backupImage config0 sys_orphan ''demo:1.0'' Map.empty) = ?fs1"
    by (simp add: sys_orphan_def)
  then have b: "snd (backupImage config0 sys_orphan ''demo:1.0'' Map.empty)
      ''docker-backups/demo_1.0-20230615-120530.tar.gz.json'' = None"
    by simp
  from a b show ?thesis by simp
qed

section \<open>The catalog listing: what is listed, and in which order\<close>

lemma suffix_last: "suffix x s \<Longrightarrow> x \<noteq> [] \<Longrightarrow> last s = last x"
  by (auto simp: suffix_def)

lemma json_not_archive: "\<not> archive_name (nm @ ''.json'')"
proof
  assume "archive_name (nm @ ''.json'')"
  then consider "suffix ''.tar'' (nm @ ''.json'')" | "suffix ''.tar.gz'' (nm @ ''.json'')"
    | "suffix ''.tgz'' (nm @ ''.json'')"
    unfolding archive_name_def by blast
  then show False
  proof cases
    case 1
    from suffix_last[OF this] show False by simp
  next
    case 2
    from suffix_last[OF this] show False by simp
  next
    case 3
    from suffix_last[OF this] show False by simp
  qed
qed

lemma TrimSuffix_append: "TrimSuffix (nm @ sfx) sfx = nm"
  by (simp add: TrimSuffix_def HasSuffix_def)

lemma TrimSuffix_json:
  "HasSuffix name ''.json'' \<Longrightarrow> TrimSuffix name ''.json'' = nm \<Longrightarrow> name = nm @ ''.json''"
  by (metis HasSuffix_def TrimSuffix_def append_take_drop_id)

lemma scan_file_tar_other:
  "k \<noteq> Name f \<Longrightarrow> map_of (fst (scan_file config sys f (T, M))) k = map_of T k"
  by (simp add: scan_file_def update_conv' split: option.splits del: Join.simps)

lemma scan_file_tar_archive:
  "\<not> IsDir f \<Longrightarrow> Info f = Some info \<Longrightarrow> archive_name (Name f) \<Longrightarrow>
   map_of (fst (scan_file config sys f (T, M))) (Name f) = Some info"
  by (simp add: scan_file_def update_conv' archive_name_def HasSuffix_suffix)

lemma scan_file_meta_other:
  assumes "Name f \<noteq> k @ ''.json''"
  shows "map_of (snd (scan_file config sys f (T, M))) k = map_of M k"
proof -
  have key: "TrimSuffix (Name f) ''.json'' \<noteq> k" if "HasSuffix (Name f) ''.json''"
    using TrimSuffix_json[OF that] assms by blast
  then show ?thesis
    by (auto simp add: scan_file_def update_conv' split: option.splits simp del: Join.simps)
qed

lemma scan_file_meta_side:
  assumes "Name f = k @ ''.json''"
  shows "map_of (snd (scan_file config sys f (T, M))) k =
           (if IsDir f then map_of M k
            else case Info f of
                   None \<Rightarrow> map_of M k
                 | Some i \<Rightarrow>
                     (case Open sys (Join [BackupDir config, Name f]) of
                        None \<Rightarrow> map_of M k
                      | Some content \<Rightarrow>
                          (case Decode sys content of
                             None \<Rightarrow> map_of M k
                           | Some meta \<Rightarrow> Some meta)))"
proof -
  have na: "\<not> HasSuffix (Name f) ''.tar''" "\<not> HasSuffix (Name f) ''.tar.gz''"
    "\<not> HasSuffix (Name f) ''.tgz''"
    using json_not_archive[of k] assms by (simp_all add: archive_name_def HasSuffix_suffix)
  have j: "HasSuffix (Name f) ''.json''" "TrimSuffix (Name f) ''.json'' = k"
    using assms by (simp_all add: HasSuffix_def TrimSuffix_append)
  show ?thesis
    using na j
    by (simp add: scan_file_def update_conv' split: option.splits del: Join.simps)
qed

lemma scan_tar_other:
  "nm \<notin> Name ` set files \<Longrightarrow>
   map_of (fst (scan config sys files maps)) nm = map_of (fst maps) nm"
proof (induction files arbitrary: maps)
  case Nil
  then show ?case by simp
next
  case (Cons f files)
  then have nm: "nm \<noteq> Name f" and rest: "nm \<notin> Name ` set files"
    by auto
  show ?case
    using Cons.IH[OF rest, of "scan_file config sys f maps"]
      scan_file_tar_other[OF nm, of config sys "fst maps" "snd maps"]
    by simp
qed

lemma scan_tar_archive:
  assumes "file \<in> set files" and "distinct (map Name files)"
    and "\<not> IsDir file" and "Info file = Some info" and "archive_name (Name file)"
  shows "map_of (fst (scan config sys files maps)) (Name file) = Some info"
  using assms(1,2)
proof (induction files arbitrary: maps)
  case Nil
  then show ?case by simp
next
  case (Cons f files)
  show ?case
  proof (cases "f = file")
    case True
    with Cons.prems have "Name file \<notin> Name ` set files"
      by auto
    from scan_tar_other[OF this, of config sys "scan_file config sys file maps"]
      scan_file_tar_archive[OF assms(3-5), of config sys "fst maps" "snd maps"] True
    show ?thesis
      by simp
  next
    case False
    with Cons.prems have "file \<in> set files" "distinct (map Name files)"
      by auto
    from Cons.IH[OF this] show ?thesis
      by simp
  qed
qed

lemma scan_meta_other:
  "nm @ ''.json'' \<notin> Name ` set files \<Longrightarrow>
   map_of (snd (scan config sys files maps)) nm = map_of (snd maps) nm"
proof (induction files arbitrary: maps)
  case Nil
  then show ?case by simp
next
  case (Cons f files)
  then have nm: "Name f \<noteq> nm @ ''.json''" and rest: "nm @ ''.json'' \<notin> Name ` set files"
    by auto
  show ?case
    using Cons.IH[OF rest, of "scan_file config sys f maps"]
      scan_file_meta_other[OF nm, of config sys "fst maps" "snd maps"]
    by simp
qed

lemma scan_meta_sidecar:
  assumes "side \<in> set files" and "distinct (map Name files)"
    and "Name side = nm @ ''.json''"
  shows "map_of (snd (scan config sys files maps)) nm =
           (if IsDir side then map_of (snd maps) nm
            else case Info side of
                   None \<Rightarrow> map_of (snd maps) nm
                 | Some i \<Rightarrow>
                     (case Open sys (Join [BackupDir config, Name side]) of
                        None \<Rightarrow> map_of (snd maps) nm
                      | Some content \<Rightarrow>
                          (case Decode sys content of
                             None \<Rightarrow> map_of (snd maps) nm
                           | Some meta \<Rightarrow> Some meta)))"
  using assms(1,2)
proof (induction files arbitrary: maps)
  case Nil
  then show ?case by simp
next
  case (Cons f files)
  show ?case
  proof (cases "f = side")
    case True
    with Cons.prems assms(3) have "nm @ ''.json'' \<notin> Name ` set files"
      by auto
    from scan_meta_other[OF this, of config sys "scan_file config sys side maps"]
      scan_file_meta_side[OF assms(3), of config sys "fst maps" "snd maps"] True
    show ?thesis
      by (simp del: Join.simps)
  next
    case False
    with Cons.prems have in_rest: "side \<in> set files" "distinct (map Name files)"
      by auto
    from Cons.prems have "Name f \<notin> Name ` set files"
      by simp
    with in_rest(1) have "Name f \<noteq> Name side"
      by (metis imageI)
    with assms(3) have nm: "Name f \<noteq> nm @ ''.json''"
      by simp
    have e: "map_of (snd (scan_file config sys f maps)) nm = map_of (snd maps) nm"
      using scan_file_meta_other[OF nm, of config sys "fst maps" "snd maps"] by simp
    show ?thesis
      unfolding scan.simps Cons.IH[OF in_rest, of "scan_file config sys f maps"] e ..
  qed
qed

lemma range_order_set: "range_order m visit \<Longrightarrow> set visit = set m"
  unfolding range_order_def by (rule mset_eq_setD)

lemma sublist_catalog:
  assumes "e \<in> set visit"
  shows "sublist (entry config M e) (concat (map (entry config M) visit))"
proof -
  from assms obtain v1 v2 where "visit = v1 @ e # v2"
    by (auto dest: split_list)
  then have "concat (map (entry config M) visit) =
      concat (map (entry config M) v1) @ entry config M e @ concat (map (entry config M) v2)"
    by simp
  then show ?thesis
    unfolding sublist_def by blast
qed

lemma runList_lists:
  assumes "\<not> Stat_IsNotExist sys (BackupDir config)"
    and "ReadDir sys (BackupDir config) = Inr files"
    and "range_order (fst (scan config sys files ([], []))) visit"
    and "map_of (fst (scan config sys files ([], []))) name = Some info"
  shows "sublist (entry config (snd (scan config sys files ([], []))) (name, info))
           (runList config sys visit)"
proof -
  from assms(4) have m: "(name, info) \<in> set (fst (scan config sys files ([], [])))"
    by (rule map_of_SomeD)
  then have ne: "length (fst (scan config sys files ([], []))) \<noteq> 0"
    by auto
  from m assms(3) have "(name, info) \<in> set visit"
    by (simp add: range_order_set)
  from sublist_catalog[OF this] have
    "sublist (entry config (snd (scan config sys files ([], []))) (name, info))
       (concat (catalog config sys files visit))"
    by (simp add: catalog_def)
  then have "sublist (entry config (snd (scan config sys files ([], []))) (name, info))
       ([Printf ''Available Docker image backups:\<newline>'' [],
         Printf ''---------------------------------\<newline>'' []] @
        concat (catalog config sys files visit))"
    unfolding sublist_def by (metis append.assoc)
  then show ?thesis
    using assms(1,2) ne by (simp add: runList_def)
qed

lemma runList_shows:
  assumes "\<not> Stat_IsNotExist sys (BackupDir config)"
    and "ReadDir sys (BackupDir config) = Inr files"
    and "distinct (map Name files)"
    and "range_order (fst (scan config sys files ([], []))) visit"
    and "file \<in> set files" and "\<not> IsDir file" and "Info file = Some info"
    and "archive_name (Name file)"
  shows "sublist (entry config (snd (scan config sys files ([], []))) (Name file, info))
           (runList config sys visit)"
  using runList_lists[OF assms(1,2,4)] scan_tar_archive[OF assms(5,3,6,7,8)]
  by blast

text \<open>
  C6. In a directory that can be read, every entry that is not a directory, whose file
  info can be had and whose name ends in \<open>.tar\<close>, \<open>.tar.gz\<close> or \<open>.tgz\<close> is listed, whatever
  the order of the visit: the listing has a line with its name, then a line with its
  size, then a line with its modification time. With no entry named after it with
  \<open>.json\<close> appended, the empty line that ends an entry comes right after these three
  lines. With such a sidecar that can be opened and parses, the three lines are followed
  by the image name and the tags of the sidecar (and, when verbose, the image id and the
  compression kind), then the empty line. With such a sidecar that cannot be opened or
  does not parse, the archive is still listed, with its three lines and the empty line.
\<close>

theorem catalog_lists_every_archive:
  assumes "\<not> Stat_IsNotExist sys (BackupDir config)"
    and "ReadDir sys (BackupDir config) = Inr files"
    and "distinct (map Name files)"
    and "range_order (fst (scan config sys files ([], []))) visit"
    and "file \<in> set files" and "\<not> IsDir file" and "Info file = Some info"
    and "archive_name (Name file)"
  shows "sublist
           [Printf ''Backup: %s\<newline>'' [Str (Name file)],
            Printf ''  Size: %.2f MB\<newline>'' [MB (FileSize info)],
            Printf ''  Date: %s\<newline>'' [RFC3339 (ModTime info)]]
           (runList config sys visit) \<and>
         ((\<forall>f \<in> set files. Name f \<noteq> Name file @ ''.json'') \<longrightarrow>
            sublist
              [Printf ''Backup: %s\<newline>'' [Str (Name file)],
               Printf ''  Size: %.2f MB\<newline>'' [MB (FileSize info)],
               Printf ''  Date: %s\<newline>'' [RFC3339 (ModTime info)],
               Printf ''\<newline>'' []]
              (runList config sys visit)) \<and>
         (\<forall>side i content meta.
            side \<in> set files \<and> Name side = Name file @ ''.json'' \<and> \<not> IsDir side \<and>
            Info side = Some i \<and>
            Open sys (Join [BackupDir config, Name side]) = Some content \<and>
            Decode sys content = Some meta \<longrightarrow>
            sublist
              ([Printf ''Backup: %s\<newline>'' [Str (Name file)],
                Printf ''  Size: %.2f MB\<newline>'' [MB (FileSize info)],
                Printf ''  Date: %s\<newline>'' [RFC3339 (ModTime info)],
                Printf ''  Image: %s\<newline>'' [Str (ImageName meta)],
                Printf ''  Tags: %s\<newline>'' [Str (strings_Join (Tags meta) '', '')]] @
               (if Verbose config
                then [Printf ''  ID: %s\<newline>'' [Str (ImageID meta)],
                      Printf ''  Compression: %s\<newline>'' [Str (InfoCompressType meta)]]
                else []) @
               [Printf ''\<newline>'' []])
              (runList config sys visit)) \<and>
         (\<forall>side.
            side \<in> set files \<and> Name side = Name file @ ''.json'' \<and>
            (Open sys (Join [BackupDir config, Name side]) = None \<or>
             (\<exists>content. Open sys (Join [BackupDir config, Name side]) = Some content \<and>
                        Decode sys content = None)) \<longrightarrow>
            sublist
              [Printf ''Backup: %s\<newline>'' [Str (Name file)],
               Printf ''  Size: %.2f MB\<newline>'' [MB (FileSize info)],
               Printf ''  Date: %s\<newline>'' [RFC3339 (ModTime info)],
               Printf ''\<newline>'' []]
              (runList config sys visit))"
proof -
  let ?M = "snd (scan config sys files ([], []))"
  let ?lines = "[Printf ''Backup: %s\<newline>'' [Str (Name file)],
                 Printf ''  Size: %.2f MB\<newline>'' [MB (FileSize info)],
                 Printf ''  Date: %s\<newline>'' [RFC3339 (ModTime info)]]"
  let ?end = "[Printf ''\<newline>'' []]"
  note shown = runList_shows[OF assms]
  have plain: "sublist (?lines @ ?end) (runList config sys visit)"
    if "map_of ?M (Name file) = None"
    using shown that by (simp add: entry_def attributes_def)
  have rich: "sublist (?lines @ enrichment config meta @ ?end) (runList config sys visit)"
    if "map_of ?M (Name file) = Some meta" for meta
    using shown that by (simp add: entry_def attributes_def)
  have 1: "sublist ?lines (runList config sys visit)"
  proof -
    have "sublist ?lines (entry config ?M (Name file, info))"
      unfolding entry_def attributes_def fst_conv snd_conv by (rule sublist_append_rightI)
    with shown show ?thesis
      by (rule sublist_order.order_trans[rotated])
  qed
  have 2: "sublist (?lines @ ?end) (runList config sys visit)"
    if "\<forall>f \<in> set files. Name f \<noteq> Name file @ ''.json''"
  proof -
    from that have "Name file @ ''.json'' \<notin> Name ` set files"
      by auto
    from scan_meta_other[OF this, of config sys "([], [])"] show ?thesis
      by (intro plain) simp
  qed
  have 3: "sublist (?lines @ enrichment config meta @ ?end) (runList config sys visit)"
    if "side \<in> set files" "Name side = Name file @ ''.json''" "\<not> IsDir side"
      "Info side = Some i" "Open sys (Join [BackupDir config, Name side]) = Some content"
      "Decode sys content = Some meta" for side i content meta
    using scan_meta_sidecar[OF that(1) assms(3) that(2), of config sys "([], [])"] that(3-6)
    by (intro rich) (simp del: Join.simps)
  have 4: "sublist (?lines @ ?end) (runList config sys visit)"
    if "side \<in> set files" "Name side = Name file @ ''.json''"
      "Open sys (Join [BackupDir config, Name side]) = None \<or>
       (\<exists>content. Open sys (Join [BackupDir config, Name side]) = Some content \<and>
                  Decode sys content = None)" for side
    using scan_meta_sidecar[OF that(1) assms(3) that(2), of config sys "([], [])"] that(3)
    by (intro plain) (auto simp del: Join.simps split: option.splits)
  have 5: "?lines @ enrichment config meta @ ?end =
           [Printf ''Backup: %s\<newline>'' [Str (Name file)],
            Printf ''  Size: %.2f MB\<newline>'' [MB (FileSize info)],
            Printf ''  Date: %s\<newline>'' [RFC3339 (ModTime info)],
            Printf ''  Image: %s\<newline>'' [Str (ImageName meta)],
            Printf ''  Tags: %s\<newline>'' [Str (strings_Join (Tags meta) '', '')]] @
           (if Verbose config
            then [Printf ''  ID: %s\<newline>'' [Str (ImageID meta)],
                  Printf ''  Compression: %s\<newline>'' [Str (InfoCompressType meta)]]
            else []) @
           [Printf ''\<newline>'' []]" for meta
    by (simp add: enrichment_def)
  have 6: "?lines @ ?end =
           [Printf ''Backup: %s\<newline>'' [Str (Name file)],
            Printf ''  Size: %.2f MB\<newline>'' [MB (FileSize info)],
            Printf ''  Date: %s\<newline>'' [RFC3339 (ModTime info)],
            Printf ''\<newline>'' []]"
    by simp
  from 1 2[unfolded 6] 3[unfolded 5] 4[unfolded 6] show ?thesis
    by blast
qed

lemma dir_prefix_default: "dir_prefix ''docker-backups'' = ''docker-backups/''"
  by (simp add: dir_prefix_def clean_loop_elem elem_end_def clean_loop_Nil add_sep_def)

lemma Join_default:
  "real_elem e \<Longrightarrow> Join [BackupDir config0, e] = ''docker-backups/'' @ e"
  using Join_real[of e "''docker-backups''"] by (simp add: config0_def dir_prefix_default)

lemma scan_dir0:
  "scan config0 sys_dir dir0 ([], []) =
     ([(''a.tar'', fi 1), (''b.tar'', fi 2), (''c.tar'', fi 4)], [(''b.tar'', meta0)])"
proof -
  have j: "Join [BackupDir config0, ''b.tar.json''] = ''docker-backups/b.tar.json''"
    "Join [BackupDir config0, ''c.tar.json''] = ''docker-backups/c.tar.json''"
    by (simp_all add: Join_default real_elem_def del: Join.simps)
  show ?thesis
    unfolding dir0_def scan.simps
    by (simp add: scan_file_def plain_file_def HasSuffix_def TrimSuffix_def j sys_dir_def
        del: Join.simps)
qed

theorem catalog_lists_every_archive_witness:
  "sublist
     [Printf ''Backup: %s\<newline>'' [Str ''a.tar''],
      Printf ''  Size: %.2f MB\<newline>'' [MB 1],
      Printf ''  Date: %s\<newline>'' [RFC3339 stamp0],
      Printf ''\<newline>'' []]
     (runList config0 sys_dir visit0) \<and>
   sublist
     [Printf ''Backup: %s\<newline>'' [Str ''b.tar''],
      Printf ''  Size: %.2f MB\<newline>'' [MB 2],
      Printf ''  Date: %s\<newline>'' [RFC3339 stamp0],
      Printf ''  Image: %s\<newline>'' [Str ''demo:1.0''],
      Printf ''  Tags: %s\<newline>'' [Str ''demo:1.0, demo:latest''],
      Printf ''\<newline>'' []]
     (runList config0 sys_dir visit0) \<and>
   sublist
     [Printf ''Backup: %s\<newline>'' [Str ''c.tar''],
      Printf ''  Size: %.2f MB\<newline>'' [MB 4],
      Printf ''  Date: %s\<newline>'' [RFC3339 stamp0],
      Printf ''\<newline>'' []]
     (runList config0 sys_dir visit0)"
proof -
  have h1: "\<not> Stat_IsNotExist sys_dir (BackupDir config0)"
    and h2: "ReadDir sys_dir (BackupDir config0) = Inr dir0"
    by (simp_all add: sys_dir_def)
  have h3: "distinct (map Name dir0)"
    by (simp add: dir0_def plain_file_def)
  have h4: "range_order (fst (scan config0 sys_dir dir0 ([], []))) visit0"
    by (simp add: scan_dir0 range_order_def visit0_def)
  have j: "Join [BackupDir config0, ''b.tar.json''] = ''docker-backups/b.tar.json''"
    "Join [BackupDir config0, ''c.tar.json''] = ''docker-backups/c.tar.json''"
    by (simp_all add: Join_default real_elem_def del: Join.simps)
  have a: "plain_file ''a.tar'' 1 \<in> set dir0" "\<not> IsDir (plain_file ''a.tar'' 1)"
    "Info (plain_file ''a.tar'' 1) = Some (fi 1)" "archive_name (Name (plain_file ''a.tar'' 1))"
    by (simp_all add: dir0_def plain_file_def archive_name_def suffix_def)
  have b: "plain_file ''b.tar'' 2 \<in> set dir0" "\<not> IsDir (plain_file ''b.tar'' 2)"
    "Info (plain_file ''b.tar'' 2) = Some (fi 2)" "archive_name (Name (plain_file ''b.tar'' 2))"
    by (simp_all add: dir0_def plain_file_def archive_name_def suffix_def)
  have c: "plain_file ''c.tar'' 4 \<in> set dir0" "\<not> IsDir (plain_file ''c.tar'' 4)"
    "Info (plain_file ''c.tar'' 4) = Some (fi 4)" "archive_name (Name (plain_file ''c.tar'' 4))"
    by (simp_all add: dir0_def plain_file_def archive_name_def suffix_def)
  note A = catalog_lists_every_archive[OF h1 h2 h3 h4 a]
  note B = catalog_lists_every_archive[OF h1 h2 h3 h4 b]
  note C = catalog_lists_every_archive[OF h1 h2 h3 h4 c]
  have na: "\<forall>f \<in> set dir0. Name f \<noteq> Name (plain_file ''a.tar'' 1) @ ''.json''"
    by (simp add: dir0_def plain_file_def)
  with A have ra: "sublist
      [Printf ''Backup: %s\<newline>'' [Str (Name (plain_file ''a.tar'' 1))],
       Printf ''  Size: %.2f MB\<newline>'' [MB (FileSize (fi 1))],
       Printf ''  Date: %s\<newline>'' [RFC3339 (ModTime (fi 1))],
       Printf ''\<newline>'' []]
      (runList config0 sys_dir visit0)"
    by blast
  have sb: "plain_file ''b.tar.json'' 3 \<in> set dir0 \<and>
      Name (plain_file ''b.tar.json'' 3) = Name (plain_file ''b.tar'' 2) @ ''.json'' \<and>
      \<not> IsDir (plain_file ''b.tar.json'' 3) \<and> Info (plain_file ''b.tar.json'' 3) = Some (fi 3) \<and>
      Open sys_dir (Join [BackupDir config0, Name (plain_file ''b.tar.json'' 3)]) = Some ''good'' \<and>
      Decode sys_dir ''good'' = Some meta0"
    by (simp add: dir0_def plain_file_def j sys_dir_def del: Join.simps)
  with B have rb: "sublist
      ([Printf ''Backup: %s\<newline>'' [Str (Name (plain_file ''b.tar'' 2))],
        Printf ''  Size: %.2f MB\<newline>'' [MB (FileSize (fi 2))],
        Printf ''  Date: %s\<newline>'' [RFC3339 (ModTime (fi 2))],
        Printf ''  Image: %s\<newline>'' [Str (ImageName meta0)],
        Printf ''  Tags: %s\<newline>'' [Str (strings_Join (Tags meta0) '', '')]] @
       (if Verbose config0
        then [Printf ''  ID: %s\<newline>'' [Str (ImageID meta0)],
              Printf ''  Compression: %s\<newline>'' [Str (InfoCompressType meta0)]]
        else []) @
       [Printf ''\<newline>'' []])
      (runList config0 sys_dir visit0)"
    by blast
  have sc: "plain_file ''c.tar.json'' 5 \<in> set dir0 \<and>
      Name (plain_file ''c.tar.json'' 5) = Name (plain_file ''c.tar'' 4) @ ''.json'' \<and>
      (Open sys_dir (Join [BackupDir config0, Name (plain_file ''c.tar.json'' 5)]) = None \<or>
       (\<exists>content. Open sys_dir (Join [BackupDir config0, Name (plain_file ''c.tar.json'' 5)]) =
           Some content \<and> Decode sys_dir content = None))"
    by (simp add: dir0_def plain_file_def j sys_dir_def del: Join.simps)
  with C have rc: "sublist
      [Printf ''Backup: %s\<newline>'' [Str (Name (plain_file ''c.tar'' 4))],
       Printf ''  Size: %.2f MB\<newline>'' [MB (FileSize (fi 4))],
       Printf ''  Date: %s\<newline>'' [RFC3339 (ModTime (fi 4))],
       Printf ''\<newline>'' []]
      (runList config0 sys_dir visit0)"
    by blast
  have t: "strings_Join (Tags meta0) '', '' = ''demo:1.0, demo:latest''"
    by (simp add: meta0_def)
  from ra rb rc show ?thesis
    by (simp add: plain_file_def fi_def config0_def meta0_def t)
qed

text \<open>
  C9 as stated fails: nothing sorts the entries, and the loop of lines 411-426 ranges over
  a Go map. For a directory with three archives, two possible orders of the visit give two
  different listings.
\<close>

theorem listing_order_counterexample:
  "range_order (fst (scan config0 sys_dir dir0 ([], []))) visit0 \<and>
   range_order (fst (scan config0 sys_dir dir0 ([], []))) visit1 \<and>
   runList config0 sys_dir visit0 \<noteq> runList config0 sys_dir visit1"
proof -
  have h: "ReadDir sys_dir (BackupDir config0) = Inr dir0"
    "\<not> Stat_IsNotExist sys_dir (BackupDir config0)"
    by (simp_all add: sys_dir_def)
  have "hd (concat (catalog config0 sys_dir dir0 visit0)) \<noteq>
        hd (concat (catalog config0 sys_dir dir0 visit1))"
    by (simp add: catalog_def visit0_def visit1_def entry_def attributes_def)
  then have "runList config0 sys_dir visit0 \<noteq> runList config0 sys_dir visit1"
    using h by (auto simp: runList_def scan_dir0)
  then show ?thesis
    by (simp add: scan_dir0 range_order_def visit0_def visit1_def)
qed

text \<open>
  C9, amended. Two runs of the listing over the same directory print the same header and
  the same entries, each with the same lines; only the order of the entries, which is the
  order of Go's visit of the map, may differ from one run to the other.
\<close>

theorem listing_same_entries_any_order:
  assumes "range_order (fst (scan config sys files ([], []))) visit"
    and "range_order (fst (scan config sys files ([], []))) visit'"
    and "\<not> Stat_IsNotExist sys (BackupDir config)"
    and "ReadDir sys (BackupDir config) = Inr files"
  shows "mset (catalog config sys files visit) = mset (catalog config sys files visit') \<and>
         (\<exists>header. runList config sys visit = header @ concat (catalog config sys files visit) \<and>
                   runList config sys visit' = header @ concat (catalog config sys files visit'))"
proof -
  let ?T = "fst (scan config sys files ([], []))"
  from assms(1,2) have v: "mset visit = mset visit'"
    by (simp add: range_order_def)
  then have m: "mset (catalog config sys files visit) = mset (catalog config sys files visit')"
    by (simp add: catalog_def)
  show ?thesis
  proof (cases "length ?T = 0")
    case True
    with assms(1,2) have "visit = []" "visit' = []"
      by (simp_all add: range_order_def)
    then have "runList config sys visit =
          [Printf ''No backups found\<newline>'' []] @ concat (catalog config sys files visit) \<and>
        runList config sys visit' =
          [Printf ''No backups found\<newline>'' []] @ concat (catalog config sys files visit')"
      using True assms(3,4) by (simp add: runList_def catalog_def)
    with m show ?thesis by blast
  next
    case False
    then have "runList config sys visit =
          [Printf ''Available Docker image backups:\<newline>'' [],
           Printf ''---------------------------------\<newline>'' []] @
          concat (catalog config sys files visit) \<and>
        runList config sys visit' =
          [Printf ''Available Docker image backups:\<newline>'' [],
           Printf ''---------------------------------\<newline>'' []] @
          concat (catalog config sys files visit')"
      using assms(3,4) by (simp add: runList_def)
    with m show ?thesis by blast
  qed
qed

theorem listing_same_entries_any_order_witness:
  "range_order (fst (scan config0 sys_dir dir0 ([], []))) visit0 \<and>
   range_order (fst (scan config0 sys_dir dir0 ([], []))) visit1 \<and>
   mset (catalog config0 sys_dir dir0 visit0) = mset (catalog config0 sys_dir dir0 visit1)"
proof -
  have h: "\<not> Stat_IsNotExist sys_dir (BackupDir config0)"
    "ReadDir sys_dir (BackupDir config0) = Inr dir0"
    by (simp_all add: sys_dir_def)
  have r: "range_order (fst (scan config0 sys_dir dir0 ([], []))) visit0"
    "range_order (fst (scan config0 sys_dir dir0 ([], []))) visit1"
    by (simp_all add: scan_dir0 range_order_def visit0_def visit1_def)
  from listing_same_entries_any_order[OF r h] r show ?thesis
    by blast
qed

section \<open>The batch runner: bound, join and isolation\<close>

lemma filter_update_count:
  "k < length xs \<Longrightarrow>
   length (filter P (xs[k := y])) + (if P (xs ! k) then 1 else 0) =
   length (filter P xs) + (if P y then 1 else 0)"
proof (induction xs arbitrary: k)
  case Nil
  then show ?case by simp
next
  case (Cons a xs)
  show ?case
  proof (cases k)
    case 0
    then show ?thesis by simp
  next
    case (Suc j)
    with Cons.prems have "j < length xs" by simp
    from Cons.IH[OF this] Suc show ?thesis by simp
  qed
qed

lemma filter_exists:
  "0 < length (filter P xs) \<Longrightarrow> \<exists>k < length xs. P (xs ! k)"
  by (metis filter_False in_set_conv_nth length_greater_0_conv)

lemma shape_init: "shape items init"
  by (simp add: shape_def init_def)

lemma shape_step:
  assumes "step cap items outcome s s'" and "shape items s"
  shows "shape items s'"
  using assms
proof (cases rule: step.cases)
  case (step_go x)
  with assms(2) show ?thesis
    by (auto simp: shape_def nth_append less_Suc_eq)
qed (auto simp: shape_def nth_list_update)

lemma counts_init: "counts cap init"
  by (simp add: counts_def init_def at_go_def added_def)

lemma counts_step:
  assumes "step cap items outcome s s'" and "counts cap s"
  shows "counts cap s'"
  using assms
proof (cases rule: step.cases)
  case step_add
  with assms(2) show ?thesis
    by (simp add: counts_def at_go_def added_def)
next
  case (step_send x)
  with assms(2) show ?thesis
    by (simp add: counts_def at_go_def added_def)
next
  case (step_go x)
  with assms(2) show ?thesis
    by (simp add: counts_def at_go_def added_def holding_def alive_def)
next
  case step_wait
  with assms(2) show ?thesis
    by (simp add: counts_def at_go_def added_def)
next
  case step_return
  with assms(2) show ?thesis
    by (simp add: counts_def at_go_def added_def)
next
  case (step_start k x)
  from filter_update_count[OF step_start(3), of holding "(x, Running)"]
    filter_update_count[OF step_start(3), of alive "(x, Running)"] step_start assms(2)
  show ?thesis
    by (auto simp add: counts_def holding_def alive_def)
next
  case (step_finish k x)
  from filter_update_count[OF step_finish(3), of holding "(x, Finished)"]
    filter_update_count[OF step_finish(3), of alive "(x, Finished)"] step_finish assms(2)
  show ?thesis
    by (auto simp add: counts_def holding_def alive_def)
next
  case (step_release k x)
  from filter_update_count[OF step_release(3), of holding "(x, Released)"]
    filter_update_count[OF step_release(3), of alive "(x, Released)"] step_release assms(2)
  show ?thesis
    by (auto simp add: counts_def holding_def alive_def)
next
  case (step_done k x)
  from filter_update_count[OF step_done(3), of holding "(x, Exited)"]
    filter_update_count[OF step_done(3), of alive "(x, Exited)"] step_done assms(2)
  show ?thesis
    by (auto simp add: counts_def holding_def alive_def)
next
  case (step_done_panic k x)
  have "alive (gs s ! k)"
    using step_done_panic by (simp add: alive_def)
  with step_done_panic(3) have "0 < length (filter alive (gs s))"
    by (metis filter_empty_conv length_greater_0_conv nth_mem)
  with assms(2) have "0 < wg s"
    by (simp add: counts_def)
  with step_done_panic show ?thesis
    by simp
qed

lemma logs_init: "logs outcome init"
  by (simp add: logs_def init_def)

lemma index_set_append:
  "\<not> P y \<Longrightarrow>
   {k. k < length (xs @ [y]) \<and> P ((xs @ [y]) ! k)} = {k. k < length xs \<and> P (xs ! k)}"
  by (auto simp: nth_append less_Suc_eq)

lemma index_set_update:
  "k < length xs \<Longrightarrow>
   {j. j < length (xs[k := y]) \<and> P (xs[k := y] ! j)} =
     (if P y then insert k {j. j < length xs \<and> P (xs ! j)}
      else {j. j < length xs \<and> P (xs ! j)} - {k})"
  by (auto simp: nth_list_update)

lemma logs_bound:
  assumes "logs outcome s"
  shows "(k, x) \<in> set (calls s) \<Longrightarrow> k < length (gs s) \<and> called (gs s ! k)"
    and "(k, r) \<in> set (results s) \<Longrightarrow> k < length (gs s) \<and> returned (gs s ! k)"
proof -
  from assms have c: "fst ` set (calls s) = {k. k < length (gs s) \<and> called (gs s ! k)}"
    and r: "fst ` set (results s) = {k. k < length (gs s) \<and> returned (gs s ! k)}"
    by (simp_all add: logs_def)
  show "(k, x) \<in> set (calls s) \<Longrightarrow> k < length (gs s) \<and> called (gs s ! k)"
    using c by (metis (mono_tags, lifting) fst_conv imageI mem_Collect_eq)
  show "(k, r) \<in> set (results s) \<Longrightarrow> k < length (gs s) \<and> returned (gs s ! k)"
    using r by (metis (mono_tags, lifting) fst_conv imageI mem_Collect_eq)
qed

lemma logs_arg:
  assumes "logs outcome s"
  shows "(k, x) \<in> set (calls s) \<Longrightarrow> x = fst (gs s ! k)"
    and "(k, r) \<in> set (results s) \<Longrightarrow> r = outcome k"
  using assms by (simp_all add: logs_def)

lemma logs_step:
  assumes "step cap items outcome s s'" and "logs outcome s"
  shows "logs outcome s'"
  using assms
proof (cases rule: step.cases)
  case (step_go x)
  have n: "\<not> called (x, Spawned)" "\<not> returned (x, Spawned)"
    by (simp_all add: called_def returned_def)
  show ?thesis
    using assms(2) logs_bound[OF assms(2)] step_go
    by (auto simp: logs_def called_def returned_def nth_append less_Suc_eq)
next
  case (step_start k x)
  have n: "called (x, Running)" "\<not> returned (x, Running)" "\<not> called (gs s ! k)"
    "\<not> returned (gs s ! k)"
    using step_start by (simp_all add: called_def returned_def)
  show ?thesis
    using assms(2) step_start n
    by (auto simp: logs_def index_set_update nth_list_update dest: logs_bound[OF assms(2)] logs_arg[OF assms(2)])
next
  case (step_finish k x)
  have n: "called (x, Finished)" "returned (x, Finished)" "called (gs s ! k)"
    "\<not> returned (gs s ! k)"
    using step_finish by (simp_all add: called_def returned_def)
  show ?thesis
    using assms(2) step_finish n
    by (auto simp: logs_def index_set_update nth_list_update dest: logs_bound[OF assms(2)] logs_arg[OF assms(2)])
next
  case (step_release k x)
  have n: "called (x, Released)" "returned (x, Released)" "called (gs s ! k)"
    "returned (gs s ! k)"
    using step_release by (simp_all add: called_def returned_def)
  show ?thesis
    using assms(2) step_release n
    by (auto simp: logs_def index_set_update nth_list_update dest: logs_bound[OF assms(2)] logs_arg[OF assms(2)])
next
  case (step_done k x)
  have n: "called (x, Exited)" "returned (x, Exited)" "called (gs s ! k)"
    "returned (gs s ! k)"
    using step_done by (simp_all add: called_def returned_def)
  show ?thesis
    using assms(2) step_done n
    by (auto simp: logs_def index_set_update nth_list_update dest: logs_bound[OF assms(2)] logs_arg[OF assms(2)])
qed (auto simp: logs_def)

lemma reachable_init: "reachable cap items outcome init"
  by (simp add: reachable_def)

lemma reachable_step:
  "reachable cap items outcome s \<Longrightarrow> step cap items outcome s s' \<Longrightarrow>
   reachable cap items outcome s'"
  by (simp add: reachable_def)

lemma reachable_steps:
  "reachable cap items outcome s \<Longrightarrow> (step cap items outcome)\<^sup>*\<^sup>* s s' \<Longrightarrow>
   reachable cap items outcome s'"
  by (simp add: reachable_def)

lemma reachable_inv:
  assumes "reachable cap items outcome s"
  shows "shape items s \<and> counts cap s \<and> logs outcome s"
  using assms unfolding reachable_def
proof (induction rule: rtranclp_induct)
  case base
  show ?case
    by (simp add: shape_init counts_init logs_init)
next
  case (step s s')
  then show ?case
    by (blast intro: shape_step counts_step logs_step)
qed

lemma filter_mono_length:
  "(\<And>x. P x \<Longrightarrow> Q x) \<Longrightarrow> length (filter P xs) \<le> length (filter Q xs)"
  by (induction xs) auto

lemma countsD:
  assumes "counts cap s"
  shows "sem s = length (filter holding (gs s)) + (if at_go (pc s) then 1 else 0)"
    and "wg s = int (length (filter alive (gs s))) + (if added (pc s) then 1 else 0)"
    and "sem s \<le> cap" and "pc s = Returned \<Longrightarrow> wg s = 0" and "pc s \<noteq> Panicked"
  using assms by (simp_all add: counts_def)

lemma in_flight_le_sem: "counts cap s \<Longrightarrow> in_flight s \<le> sem s"
proof -
  assume c: "counts cap s"
  have "in_flight s \<le> length (filter holding (gs s))"
    unfolding in_flight_def by (rule filter_mono_length) (simp add: holding_def)
  with countsD(1)[OF c] show ?thesis
    by linarith
qed

lemma in_flight_bound: "counts cap s \<Longrightarrow> in_flight s \<le> cap"
  using in_flight_le_sem[of cap s] countsD(3)[of cap s] by linarith

lemma returned_all_exited:
  assumes "counts cap s" and "pc s = Returned"
  shows "\<forall>g \<in> set (gs s). snd g = Exited"
proof -
  from countsD(2,4)[OF assms(1)] assms(2) have "length (filter alive (gs s)) = 0"
    by (simp add: added_def)
  then show ?thesis
    by (auto simp: filter_empty_conv alive_def)
qed

lemma returned_logs:
  assumes "shape items s" and "counts cap s" and "logs outcome s" and "pc s = Returned"
  shows "set (map fst (calls s)) = {0..<length items}"
    and "set (map fst (results s)) = {0..<length items}"
proof -
  from assms(1,4) have n: "length (gs s) = length items"
    by (simp add: shape_def)
  from returned_all_exited[OF assms(2,4)] have e: "snd (gs s ! k) = Exited" if "k < length (gs s)" for k
    using that by simp
  from assms(3) show "set (map fst (calls s)) = {0..<length items}"
    using e n by (auto simp: logs_def called_def)
  from assms(3) show "set (map fst (results s)) = {0..<length items}"
    using e n by (auto simp: logs_def returned_def)
qed

lemma distinct_range_mset:
  "distinct ks \<Longrightarrow> set ks = {0..<n} \<Longrightarrow> mset ks = mset [0..<n]"
  by (metis distinct_upt set_eq_iff_mset_eq_distinct set_upt)

lemma progress:
  assumes "1 \<le> cap" and "shape items s" and "counts cap s" and "pc s \<noteq> Returned"
  shows "\<exists>s'. step cap items outcome s s'"
proof -
  have np: "pc s \<noteq> Panicked"
    using assms(3) by (simp add: counts_def)
  have holder: "\<exists>s'. step cap items outcome s s'"
    if "k < length (gs s)" "holding (gs s ! k)" "0 < sem s" for k
  proof (cases "gs s ! k")
    case (Pair x st)
    with that(2) consider "st = Spawned" | "st = Running" | "st = Finished"
      by (auto simp: holding_def)
    then show ?thesis
    proof cases
      case 1
      with Pair that(1) np show ?thesis by (blast intro: step_start)
    next
      case 2
      with Pair that(1) np show ?thesis by (blast intro: step_finish)
    next
      case 3
      with Pair that(1,3) np show ?thesis by (blast intro: step_release)
    qed
  qed
  show ?thesis
  proof (cases "pc s")
    case Loop
    then show ?thesis
      by (cases "ranged s < length items") (blast intro: step_add step_wait)+
  next
    case (Send x)
    show ?thesis
    proof (cases "sem s < cap")
      case True
      with Send show ?thesis by (blast intro: step_send)
    next
      case False
      with assms(1) countsD(1,3)[OF assms(3)] Send
      have "0 < length (filter holding (gs s))" "0 < sem s"
        by (simp_all add: at_go_def)
      with filter_exists[of holding "gs s"] holder show ?thesis
        by blast
    qed
  next
    case (Go x)
    then show ?thesis by (blast intro: step_go)
  next
    case Wait
    show ?thesis
    proof (cases "wg s = 0")
      case True
      with Wait show ?thesis by (blast intro: step_return)
    next
      case False
      with countsD(2)[OF assms(3)] Wait
      have a: "0 < length (filter alive (gs s))" and w: "0 < wg s"
        by (simp_all add: added_def)
      from filter_exists[OF a] obtain k where k: "k < length (gs s)" "alive (gs s ! k)"
        by blast
      show ?thesis
      proof (cases "holding (gs s ! k)")
        case True
        with k(1) have "0 < length (filter holding (gs s))"
          by (metis filter_empty_conv length_greater_0_conv nth_mem)
        with countsD(1)[OF assms(3)] have "0 < sem s"
          by simp
        with holder k(1) True show ?thesis by blast
      next
        case False
        with k(2) obtain x where "gs s ! k = (x, Released)"
          by (cases "gs s ! k"; cases "snd (gs s ! k)") (auto simp: holding_def alive_def)
        with k(1) w np show ?thesis by (blast intro: step_done)
      qed
    qed
  next
    case Returned
    with assms(4) show ?thesis by simp
  next
    case Panicked
    with np show ?thesis by simp
  qed
qed

lemma weight_update:
  "k < length xs \<Longrightarrow>
   sum_list (map weight (xs[k := y])) + weight (xs ! k) = sum_list (map weight xs) + weight y"
proof (induction xs arbitrary: k)
  case Nil
  then show ?case by simp
next
  case (Cons a xs)
  show ?case
  proof (cases k)
    case 0
    then show ?thesis by simp
  next
    case (Suc j)
    with Cons.prems have "j < length xs" by simp
    from Cons.IH[OF this] Suc show ?thesis by simp
  qed
qed

lemma steps_left_step:
  assumes "step cap items outcome s s'" and "shape items s" and "counts cap s"
  shows "steps_left items s = Suc (steps_left items s')"
  using assms(1)
proof (cases rule: step.cases)
  case step_add
  then show ?thesis by (simp add: steps_left_def pc_weight_def)
next
  case (step_send x)
  then show ?thesis by (simp add: steps_left_def pc_weight_def)
next
  case (step_go x)
  with assms(2) have "ranged s < length items"
    by (simp add: shape_def)
  with step_go show ?thesis
    by (simp add: steps_left_def pc_weight_def weight_def)
next
  case step_wait
  then show ?thesis by (simp add: steps_left_def pc_weight_def)
next
  case step_return
  then show ?thesis by (simp add: steps_left_def pc_weight_def)
next
  case (step_start k x)
  from weight_update[OF step_start(3), of "(x, Running)"] step_start show ?thesis
    by (simp add: steps_left_def weight_def)
next
  case (step_finish k x)
  from weight_update[OF step_finish(3), of "(x, Finished)"] step_finish show ?thesis
    by (simp add: steps_left_def weight_def)
next
  case (step_release k x)
  from weight_update[OF step_release(3), of "(x, Released)"] step_release show ?thesis
    by (simp add: steps_left_def weight_def)
next
  case (step_done k x)
  from weight_update[OF step_done(3), of "(x, Exited)"] step_done show ?thesis
    by (simp add: steps_left_def weight_def)
next
  case (step_done_panic k x)
  from counts_step[OF assms(1,3)] step_done_panic show ?thesis
    by (simp add: counts_def)
qed

lemma reaches_return:
  assumes "1 \<le> cap" and "reachable cap items outcome s"
  shows "\<exists>s'. (step cap items outcome)\<^sup>*\<^sup>* s s' \<and> pc s' = Returned"
  using assms(2)
proof (induction "steps_left items s" arbitrary: s rule: less_induct)
  case less
  show ?case
  proof (cases "pc s = Returned")
    case True
    then show ?thesis by blast
  next
    case False
    from reachable_inv[OF less.prems] have inv: "shape items s" "counts cap s"
      by simp_all
    from progress[OF assms(1) inv False] obtain s1 where s1: "step cap items outcome s s1"
      by blast
    from steps_left_step[OF s1 inv] have "steps_left items s1 < steps_left items s"
      by simp
    from less.hyps[OF this reachable_step[OF less.prems s1]] obtain s' where
      "(step cap items outcome)\<^sup>*\<^sup>* s1 s'" "pc s' = Returned"
      by blast
    with s1 show ?thesis
      by (blast intro: converse_rtranclp_into_rtranclp)
  qed
qed

text \<open>
  C2. For a worker limit of at least one and any list of items, in every state that an
  execution of the batch runner can reach: at most \<open>cap\<close> task invocations are in flight;
  no iteration has its task invoked twice, and the task of iteration \<open>k\<close> is invoked on
  item \<open>k\<close>. When the runner has returned, the task has been invoked exactly once for
  every item (as many invocations as items), every invocation has returned, and none is in
  flight. The runner does return: from every reachable state an execution leads to the
  return, and every step brings it nearer by one (\<open>steps_left\<close>), so that no execution
  goes on forever.
\<close>

theorem batch_runner_contract:
  assumes "1 \<le> cap" and "reachable cap items outcome s"
  shows "in_flight s \<le> cap \<and>
         distinct (map fst (calls s)) \<and>
         (\<forall>k x. (k, x) \<in> set (calls s) \<longrightarrow> k < length items \<and> x = items ! k) \<and>
         (pc s = Returned \<longrightarrow>
            mset (map fst (calls s)) = mset [0..<length items] \<and>
            length (calls s) = length items \<and>
            mset (map fst (results s)) = mset [0..<length items] \<and>
            in_flight s = 0) \<and>
         (\<exists>s'. (step cap items outcome)\<^sup>*\<^sup>* s s' \<and> pc s' = Returned) \<and>
         (\<forall>s'. step cap items outcome s s' \<longrightarrow> steps_left items s = Suc (steps_left items s'))"
proof -
  from reachable_inv[OF assms(2)] have sh: "shape items s" and co: "counts cap s"
    and lo: "logs outcome s"
    by simp_all
  have 1: "in_flight s \<le> cap"
    by (rule in_flight_bound[OF co])
  have 2: "distinct (map fst (calls s))"
    using lo by (simp add: logs_def)
  have 3: "k < length items \<and> x = items ! k" if "(k, x) \<in> set (calls s)" for k x
  proof -
    from logs_bound(1)[OF lo that] have k: "k < length (gs s)" by simp
    with sh have "k < length items" "fst (gs s ! k) = items ! k"
      by (simp_all add: shape_def)
    with logs_arg(1)[OF lo that] show ?thesis by simp
  qed
  have 4: "mset (map fst (calls s)) = mset [0..<length items] \<and>
           length (calls s) = length items \<and>
           mset (map fst (results s)) = mset [0..<length items] \<and> in_flight s = 0"
    if r: "pc s = Returned"
  proof -
    from lo have d1: "distinct (map fst (calls s))" and d2: "distinct (map fst (results s))"
      by (simp_all add: logs_def)
    have c: "mset (map fst (calls s)) = mset [0..<length items]"
      by (rule distinct_range_mset[OF d1 returned_logs(1)[OF sh co lo r]])
    have d: "mset (map fst (results s)) = mset [0..<length items]"
      by (rule distinct_range_mset[OF d2 returned_logs(2)[OF sh co lo r]])
    from c have "size (mset (map fst (calls s))) = size (mset [0..<length items])"
      by simp
    then have l: "length (calls s) = length items"
      by simp
    from returned_all_exited[OF co r] have "in_flight s = 0"
      by (auto simp: in_flight_def filter_empty_conv)
    with c d l show ?thesis by blast
  qed
  have 5: "\<exists>s'. (step cap items outcome)\<^sup>*\<^sup>* s s' \<and> pc s' = Returned"
    by (rule reaches_return[OF assms])
  have 6: "steps_left items s = Suc (steps_left items s')" if "step cap items outcome s s'" for s'
    by (rule steps_left_step[OF that sh co])
  from 1 2 3 4 5 6 show ?thesis
    by blast
qed

lemma step_eq:
  "step cap items outcome s t \<Longrightarrow> t = t' \<Longrightarrow> step cap items outcome s t'"
  by simp

lemma relabel_step:
  assumes "step cap items outcome s s'"
  shows "step cap items outcome' (relabel outcome' s) (relabel outcome' s')"
  using assms
proof (cases rule: step.cases)
  case step_add
  show ?thesis
    by (rule step_eq[OF step.step_add[of "relabel outcome' s" items cap outcome']])
      (auto simp: relabel_def step_add intro!: orch.equality)
next
  case (step_send x)
  show ?thesis
    by (rule step_eq[OF step.step_send[of "relabel outcome' s" x cap items outcome']])
      (auto simp: relabel_def step_send intro!: orch.equality)
next
  case (step_go x)
  show ?thesis
    by (rule step_eq[OF step.step_go[of "relabel outcome' s" x cap items outcome']])
      (auto simp: relabel_def step_go intro!: orch.equality)
next
  case step_wait
  show ?thesis
    by (rule step_eq[OF step.step_wait[of "relabel outcome' s" items cap outcome']])
      (auto simp: relabel_def step_wait intro!: orch.equality)
next
  case step_return
  show ?thesis
    by (rule step_eq[OF step.step_return[of "relabel outcome' s" cap items outcome']])
      (auto simp: relabel_def step_return intro!: orch.equality)
next
  case (step_start k x)
  show ?thesis
    by (rule step_eq[OF step.step_start[of "relabel outcome' s" k x cap items outcome']])
      (auto simp: relabel_def step_start intro!: orch.equality)
next
  case (step_finish k x)
  show ?thesis
    by (rule step_eq[OF step.step_finish[of "relabel outcome' s" k x cap items outcome']])
      (auto simp: relabel_def step_finish intro!: orch.equality)
next
  case (step_release k x)
  show ?thesis
    by (rule step_eq[OF step.step_release[of "relabel outcome' s" k x cap items outcome']])
      (auto simp: relabel_def step_release intro!: orch.equality)
next
  case (step_done k x)
  show ?thesis
    by (rule step_eq[OF step.step_done[of "relabel outcome' s" k x cap items outcome']])
      (auto simp: relabel_def step_done intro!: orch.equality)
next
  case (step_done_panic k x)
  show ?thesis
    by (rule step_eq[OF step.step_done_panic[of "relabel outcome' s" k x cap items outcome']])
      (auto simp: relabel_def step_done_panic intro!: orch.equality)
qed

lemma relabel_reachable:
  assumes "reachable cap items outcome s"
  shows "reachable cap items outcome' (relabel outcome' s)"
  using assms unfolding reachable_def
proof (induction rule: rtranclp_induct)
  case base
  show ?case by (simp add: relabel_def init_def)
next
  case (step s s')
  from step.IH relabel_step[OF step.hyps(2)] show ?case
    by (rule rtranclp.rtrancl_into_rtrancl)
qed

lemma run_add:
  "r < length items \<Longrightarrow>
   step cap items outcome
     \<lparr>pc = Loop, ranged = r, sem = m, wg = w, gs = g, calls = c, results = q\<rparr>
     \<lparr>pc = Send (items ! r), ranged = r, sem = m, wg = w + 1, gs = g, calls = c, results = q\<rparr>"
  by (rule step_eq[OF step_add]) simp_all

lemma run_send:
  "m < cap \<Longrightarrow>
   step cap items outcome
     \<lparr>pc = Send x, ranged = r, sem = m, wg = w, gs = g, calls = c, results = q\<rparr>
     \<lparr>pc = Go x, ranged = r, sem = m + 1, wg = w, gs = g, calls = c, results = q\<rparr>"
  by (rule step_eq[OF step_send]) simp_all

lemma run_go:
  "step cap items outcome
     \<lparr>pc = Go x, ranged = r, sem = m, wg = w, gs = g, calls = c, results = q\<rparr>
     \<lparr>pc = Loop, ranged = r + 1, sem = m, wg = w, gs = g @ [(x, Spawned)], calls = c,
      results = q\<rparr>"
  by (rule step_eq[OF step_go]) simp_all

lemma run_wait:
  "\<not> r < length items \<Longrightarrow>
   step cap items outcome
     \<lparr>pc = Loop, ranged = r, sem = m, wg = w, gs = g, calls = c, results = q\<rparr>
     \<lparr>pc = Wait, ranged = r, sem = m, wg = w, gs = g, calls = c, results = q\<rparr>"
  by (rule step_eq[OF step_wait]) simp_all

lemma run_return:
  "w = 0 \<Longrightarrow>
   step cap items outcome
     \<lparr>pc = Wait, ranged = r, sem = m, wg = w, gs = g, calls = c, results = q\<rparr>
     \<lparr>pc = Returned, ranged = r, sem = m, wg = w, gs = g, calls = c, results = q\<rparr>"
  by (rule step_eq[OF step_return]) simp_all

lemma run_start:
  "p \<noteq> Panicked \<Longrightarrow> k < length g \<Longrightarrow> snd (g ! k) = Spawned \<Longrightarrow>
   step cap items outcome
     \<lparr>pc = p, ranged = r, sem = m, wg = w, gs = g, calls = c, results = q\<rparr>
     \<lparr>pc = p, ranged = r, sem = m, wg = w, gs = g[k := (fst (g ! k), Running)],
      calls = c @ [(k, fst (g ! k))], results = q\<rparr>"
  by (rule step_eq[OF step_start[where k = k and x = "fst (g ! k)"]])
    (simp_all add: prod_eq_iff)

lemma run_finish:
  "p \<noteq> Panicked \<Longrightarrow> k < length g \<Longrightarrow> snd (g ! k) = Running \<Longrightarrow>
   step cap items outcome
     \<lparr>pc = p, ranged = r, sem = m, wg = w, gs = g, calls = c, results = q\<rparr>
     \<lparr>pc = p, ranged = r, sem = m, wg = w, gs = g[k := (fst (g ! k), Finished)],
      calls = c, results = q @ [(k, outcome k)]\<rparr>"
  by (rule step_eq[OF step_finish[where k = k and x = "fst (g ! k)"]])
    (simp_all add: prod_eq_iff)

lemma run_release:
  "p \<noteq> Panicked \<Longrightarrow> k < length g \<Longrightarrow> snd (g ! k) = Finished \<Longrightarrow> 0 < m \<Longrightarrow>
   step cap items outcome
     \<lparr>pc = p, ranged = r, sem = m, wg = w, gs = g, calls = c, results = q\<rparr>
     \<lparr>pc = p, ranged = r, sem = m - 1, wg = w, gs = g[k := (fst (g ! k), Released)],
      calls = c, results = q\<rparr>"
  by (rule step_eq[OF step_release[where k = k and x = "fst (g ! k)"]])
    (simp_all add: prod_eq_iff)

lemma run_done:
  "p \<noteq> Panicked \<Longrightarrow> k < length g \<Longrightarrow> snd (g ! k) = Released \<Longrightarrow> 0 < w \<Longrightarrow>
   step cap items outcome
     \<lparr>pc = p, ranged = r, sem = m, wg = w, gs = g, calls = c, results = q\<rparr>
     \<lparr>pc = p, ranged = r, sem = m, wg = w - 1, gs = g[k := (fst (g ! k), Exited)],
      calls = c, results = q\<rparr>"
  by (rule step_eq[OF step_done[where k = k and x = "fst (g ! k)"]])
    (simp_all add: prod_eq_iff)

lemma run_end_reachable: "reachable 1 [''bad:1'', ''good:1''] outcome (run_end outcome)"
proof -
  note r0 = reachable_init[of 1 "[''bad:1'', ''good:1'']" outcome, unfolded init_def]
  note r1 = reachable_step[OF r0 run_add, simplified]
  note r2 = reachable_step[OF r1 run_send, simplified]
  note r3 = reachable_step[OF r2 run_go, simplified]
  note r4 = reachable_step[OF r3 run_add, simplified]
  note r5 = reachable_step[OF r4 run_start[where k = 0], simplified]
  note r6 = reachable_step[OF r5 run_finish[where k = 0], simplified]
  note r7 = reachable_step[OF r6 run_release[where k = 0], simplified]
  note r8 = reachable_step[OF r7 run_send, simplified]
  note r9 = reachable_step[OF r8 run_go, simplified]
  note r10 = reachable_step[OF r9 run_wait, simplified]
  note r11 = reachable_step[OF r10 run_done[where k = 0], simplified]
  note r12 = reachable_step[OF r11 run_start[where k = 1], simplified]
  note r13 = reachable_step[OF r12 run_finish[where k = 1], simplified]
  note r14 = reachable_step[OF r13 run_release[where k = 1], simplified]
  note r15 = reachable_step[OF r14 run_done[where k = 1], simplified]
  note r16 = reachable_step[OF r15 run_return, simplified]
  from r16 show ?thesis
    by (simp add: run_end_def numeral_2_eq_2)
qed

theorem batch_runner_contract_witness:
  "(1::nat) \<le> 1 \<and> reachable 1 [''bad:1'', ''good:1''] (\<lambda>k. ()) (run_end (\<lambda>k. ())) \<and>
   pc (run_end (\<lambda>k. ())) = (Returned :: string pc) \<and>
   mset (map fst (calls (run_end (\<lambda>k. ())))) = mset [0..<length [''bad:1'', ''good:1'']] \<and>
   mset (map fst (results (run_end (\<lambda>k. ())))) = mset [0..<length [''bad:1'', ''good:1'']] \<and>
   in_flight (run_end (\<lambda>k. ())) = 0 \<and>
   (1, ''good:1'') \<in> set (calls (run_end (\<lambda>k. ()))) \<and>
   ''good:1'' = [''bad:1'', ''good:1''] ! 1 \<and>
   reachable 1 [''bad:1'', ''good:1''] (\<lambda>k. ()) init \<and>
   step 1 [''bad:1'', ''good:1''] (\<lambda>k. ()) init
     \<lparr>pc = Send ''bad:1'', ranged = 0, sem = 0, wg = 1, gs = [], calls = [], results = []\<rparr> \<and>
   steps_left [''bad:1'', ''good:1''] (init :: (string, unit) orch) = 16 \<and>
   steps_left [''bad:1'', ''good:1'']
     (\<lparr>pc = Send ''bad:1'', ranged = 0, sem = 0, wg = 1, gs = [], calls = [],
       results = []\<rparr> :: (string, unit) orch) = 15"
proof -
  let ?items = "[''bad:1'', ''good:1'']"
  let ?s1 = "\<lparr>pc = Send ''bad:1'', ranged = 0, sem = 0, wg = 1, gs = [], calls = [],
              results = []\<rparr> :: (string, unit) orch"
  have c: "(1::nat) \<le> 1" by simp
  have r: "reachable 1 ?items (\<lambda>k. ()) (run_end (\<lambda>k. ()))"
    by (rule run_end_reachable)
  have p: "pc (run_end (\<lambda>k. ())) = (Returned :: string pc)"
    by (simp add: run_end_def)
  note e = batch_runner_contract[OF c r]
  from e p
  have m: "mset (map fst (calls (run_end (\<lambda>k. ())))) = mset [0..<length ?items] \<and>
        mset (map fst (results (run_end (\<lambda>k. ())))) = mset [0..<length ?items] \<and>
        in_flight (run_end (\<lambda>k. ())) = 0"
    by blast
  have k: "(1, ''good:1'') \<in> set (calls (run_end (\<lambda>k. ())))"
    by (simp add: run_end_def)
  with e have a: "''good:1'' = ?items ! 1"
    by blast
  have r0: "reachable 1 ?items (\<lambda>k. ()) init"
    by (rule reachable_init)
  have s: "step 1 ?items (\<lambda>k. ()) init ?s1"
    unfolding init_def using run_add[of 0 ?items 1 "\<lambda>k. ()" 0 0 "[]" "[]" "[]"] by simp
  from batch_runner_contract[OF c r0] s
  have d: "steps_left ?items (init :: (string, unit) orch) = Suc (steps_left ?items ?s1)"
    by blast
  have n: "steps_left ?items ?s1 = 15"
    by (simp add: steps_left_def pc_weight_def)
  with d have "steps_left ?items (init :: (string, unit) orch) = 16"
    by simp
  with c r p m k a r0 s n show ?thesis
    by blast
qed

lemma write_sidecar_reports:
  "(Create_err sys (metadataPath tarball) \<noteq> None \<or>
    Encode_err sys (metadataPath tarball) \<noteq> None) =
     (reports (fst (write_sidecar sys item tarball info fs)) \<noteq> [])"
  "reported_last (fst (write_sidecar sys item tarball info fs))"
  "fst (write_sidecar sys item tarball info fs) \<noteq> []"
  by (auto simp: write_sidecar_def reported_last_def split: option.splits list.splits)

lemma reported_last_append:
  "reports xs = [] \<Longrightarrow> ys \<noteq> [] \<Longrightarrow> reported_last ys \<Longrightarrow> reported_last (xs @ ys)"
  by (auto simp: reported_last_def reports_append split: list.splits)

lemma backupImage_reports:
  "backup_err config sys item fs = (reports (fst (backupImage config sys item fs)) \<noteq> [])"
  "reported_last (fst (backupImage config sys item fs))"
proof -
  let ?t = "tarballName config item (Now sys)"
  have both: "backup_err config sys item fs =
                (reports (fst (backupImage config sys item fs)) \<noteq> []) \<and>
              reported_last (fst (backupImage config sys item fs))"
  proof (cases "ImageInspectWithRaw sys item")
    case (Inl err)
    then show ?thesis
      by (simp add: backup_err_def backupImage_def reported_last_def reports_append)
  next
    case (Inr img)
    obtain e fs1 where r: "Run sys (save_cmd config item ?t) fs = (e, fs1)"
      by (cases "Run sys (save_cmd config item ?t) fs")
    show ?thesis
    proof (cases e)
      case None
      let ?info = "\<lparr>ImageName = item, ImageID = img_ID img, Tags = img_RepoTags img,
                     Size = img_Size img, BackupDate = Now2 sys,
                     InfoCompressType = CompressType config\<rparr>"
      let ?w = "fst (write_sidecar sys item ?t ?info fs1)"
      let ?pre = "(if Verbose config
                   then [Printf ''Starting backup of image: %s\<newline>'' [Str item]] else []) @
                  (if CompressType config = ''gzip''
                   then [Printf ''Saving image %s to %s (gzip compressed)...\<newline>''
                           [Str item, Str ?t]]
                   else [Printf ''Saving image %s to %s...\<newline>'' [Str item, Str ?t]]) @
                  [Exec (save_cmd config item ?t)]"
      have b: "fst (backupImage config sys item fs) = ?pre @ ?w"
        using backupImage_saved[OF Inr r[unfolded None]] by (simp add: Let_def)
      have p: "reports ?pre = []"
        by (simp add: reports_append)
      have f: "backup_err config sys item fs = (reports ?w \<noteq> [])"
        using write_sidecar_reports(1)[of sys ?t item ?info fs1] Inr r None
        by (simp add: backup_err_def)
      have l: "reported_last (?pre @ ?w)"
        by (rule reported_last_append[OF p write_sidecar_reports(3) write_sidecar_reports(2)])
      from f l show ?thesis
        unfolding b by (simp add: reports_append p)
    next
      case (Some err)
      with Inr r show ?thesis
        by (simp add: backup_err_def backupImage_def Let_def reported_last_def reports_append)
    qed
  qed
  from both show "backup_err config sys item fs =
      (reports (fst (backupImage config sys item fs)) \<noteq> [])"
    by blast
  from both show "reported_last (fst (backupImage config sys item fs))"
    by blast
qed

lemma restoreImage_reports:
  "restore_err sys path = (reports (restoreImage config sys path) \<noteq> [])"
  "reported_last (restoreImage config sys path)"
  by (auto simp: restore_err_def restoreImage_def Let_def reports_append reported_last_def split: list.splits
      split: prod.splits option.splits)

text \<open>
  The errors that reach the code. The runner never reads what a task did: whatever the
  tasks report (\<open>outcome'\<close> instead of \<open>outcome\<close>), the same executions are possible; when
  the runner has returned, every item has its result in the log of returns; and, a task of
  the model being a step that ends, the runner does return. Inside a pipeline every error
  handed to the code (by the inspection, \<open>cmd.Run()\<close>, the creation of the sidecar or its
  writing for a backup; by the load command for a restore) is reported, and a report is
  the last thing the pipeline does: it reports at most once and then returns to the
  runner, to which it hands no error.
\<close>

lemma handed_errors_are_isolated:
  assumes "1 \<le> cap" and "reachable cap items outcome s"
  shows "reachable cap items outcome' (relabel outcome' s) \<and>
         (pc s = Returned \<longrightarrow> (\<forall>k < length items. (k, outcome k) \<in> set (results s))) \<and>
         (\<exists>s'. (step cap items outcome)\<^sup>*\<^sup>* s s' \<and> pc s' = Returned) \<and>
         backup_err config bsys item fs =
           (reports (fst (backupImage config bsys item fs)) \<noteq> []) \<and>
         reported_last (fst (backupImage config bsys item fs)) \<and>
         restore_err rsys path = (reports (restoreImage config' rsys path) \<noteq> []) \<and>
         reported_last (restoreImage config' rsys path)"
proof -
  from reachable_inv[OF assms(2)] have sh: "shape items s" and co: "counts cap s"
    and lo: "logs outcome s"
    by simp_all
  have 1: "reachable cap items outcome' (relabel outcome' s)"
    by (rule relabel_reachable[OF assms(2)])
  have 2: "(k, outcome k) \<in> set (results s)" if "pc s = Returned" "k < length items" for k
  proof -
    from returned_logs(2)[OF sh co lo that(1)] that(2) have "k \<in> fst ` set (results s)"
      by simp
    then obtain r where r: "(k, r) \<in> set (results s)"
      by force
    with logs_arg(2)[OF lo r] show ?thesis by simp
  qed
  have 3: "\<exists>s'. (step cap items outcome)\<^sup>*\<^sup>* s s' \<and> pc s' = Returned"
    by (rule reaches_return[OF assms])
  from 1 2 3 backupImage_reports[where config = config and sys = bsys and item = item and fs = fs]
    restoreImage_reports[where sys = rsys and path = path and config = config']
  show ?thesis
    by blast
qed

lemma handed_errors_example:
  "(1::nat) \<le> 1 \<and>
   reachable 1 [''bad:1'', ''good:1''] demo_outcome (run_end demo_outcome) \<and>
   pc (run_end demo_outcome) = (Returned :: string pc) \<and>
   (0, demo_outcome 0) \<in> set (results (run_end demo_outcome)) \<and>
   (1, demo_outcome 1) \<in> set (results (run_end demo_outcome)) \<and>
   backup_err config0 sys_missing ''bad:1'' Map.empty \<and> reports (demo_outcome 0) \<noteq> [] \<and>
   \<not> backup_err config0 sys_fine ''good:1'' Map.empty \<and> reports (demo_outcome 1) = []"
proof -
  have c: "(1::nat) \<le> 1" by simp
  have r: "reachable 1 [''bad:1'', ''good:1''] demo_outcome (run_end demo_outcome)"
    by (rule run_end_reachable)
  have p: "pc (run_end demo_outcome) = (Returned :: string pc)"
    by (simp add: run_end_def)
  note a = handed_errors_are_isolated[OF c r, where config = config0 and bsys = sys_missing
      and item = "''bad:1''" and fs = Map.empty]
  note b = handed_errors_are_isolated[OF c r, where config = config0 and bsys = sys_fine
      and item = "''good:1''" and fs = Map.empty]
  from a p have all: "\<forall>k < length [''bad:1'', ''good:1''].
      (k, demo_outcome k) \<in> set (results (run_end demo_outcome))"
    by blast
  have "0 < length [''bad:1'', ''good:1'']" "1 < length [''bad:1'', ''good:1'']"
    by simp_all
  with all have k: "(0, demo_outcome 0) \<in> set (results (run_end demo_outcome))"
    "(1, demo_outcome 1) \<in> set (results (run_end demo_outcome))"
    by blast+
  have f0: "backup_err config0 sys_missing ''bad:1'' Map.empty"
    by (simp add: backup_err_def sys_missing_def)
  have f1: "\<not> backup_err config0 sys_fine ''good:1'' Map.empty"
    by (simp add: backup_err_def sys_fine_def sys_orphan_def)
  from a f0 have "reports (fst (backupImage config0 sys_missing ''bad:1'' Map.empty)) \<noteq> []"
    by blast
  then have r0: "reports (demo_outcome 0) \<noteq> []"
    by (simp add: demo_outcome_def)
  from b f1 have "reports (fst (backupImage config0 sys_fine ''good:1'' Map.empty)) = []"
    by blast
  then have r1: "reports (demo_outcome 1) = []"
    by (simp add: demo_outcome_def)
  from c r p k f0 f1 r0 r1 show ?thesis
    by blast
qed

subsection \<open>A save that fails under gzip\<close>

lemma sh_words_script:
  "sh_words ''docker save demo:1.0 | gzip > docker-backups/demo_1.0-20230615-120530.tar.gz'' =
     [''docker'', ''save'', ''demo:1.0'', ''|'', ''gzip'', ''>'',
      ''docker-backups/demo_1.0-20230615-120530.tar.gz'']"
  by (simp add: sh_words_def)

lemma sh_c_script:
  "sh_c (machine docker gzip)
     ''docker save demo:1.0 | gzip > docker-backups/demo_1.0-20230615-120530.tar.gz'' fs =
     (case docker [''save'', ''demo:1.0''] [] fs of
        (s1, out1, fs1) \<Rightarrow>
          (case gzip [] out1 (fs1(''docker-backups/demo_1.0-20230615-120530.tar.gz'' \<mapsto> [])) of
             (s2, out2, fs2) \<Rightarrow>
               (s2, fs2(''docker-backups/demo_1.0-20230615-120530.tar.gz'' \<mapsto> out2))))"
  unfolding sh_c_def sh_words_script
  by (simp add: simple_command_def machine_def split: prod.splits)

lemma tarballName_plain:
  "tarballName (config0\<lparr>CompressType := ''none''\<rparr>) ''demo:1.0'' stamp0 =
     ''docker-backups/demo_1.0-20230615-120530.tar''"
  unfolding tarballName_eq Format_stamp0
  by (simp add: config0_def dir_prefix_default safeImageName_map)

lemma config0_fields: "CompressType config0 = ''gzip''" "Verbose config0 = False"
  by (simp_all add: config0_def)

lemma sys_on_fields:
  "ImageInspectWithRaw (sys_on path) i =
     Inr \<lparr>img_ID = ''sha256:0'', img_RepoTags = [''demo:1.0''], img_Size = 7\<rparr>"
  "Now (sys_on path) = stamp0" "Run (sys_on path) = Run_on path"
  "Create_err (sys_on path) p = None" "Encode_err (sys_on path) p = None"
  "Marshal (sys_on path) info = ''{}''"
  by (simp_all add: sys_on_def sys_fine_def sys_orphan_def)

text \<open>
  C3. Every item-level error is to be reported and followed by an early return, the error
  of the save subprocess among them. Under gzip the code does not do so. On a machine
  where \<open>docker save\<close> ends with status 1 and has written nothing, and \<open>gzip\<close> works, the
  backup of \<open>demo:1.0\<close> with the default configuration reports nothing: the status of the
  shell is that of \<open>gzip\<close>, \<open>cmd.Run()\<close> returns no error, and the pipeline goes on to
  write the sidecar and to print its line of success, over an archive that holds the
  compression of no bytes. On the same machine without gzip (line 211) the failure is
  reported and the pipeline returns at once; and under gzip a failure of \<open>gzip\<close> itself
  is reported.
\<close>

theorem failed_save_unreported_under_gzip:
  "fst (backupImage config0 (sys_on (machine (exits 1) (gzip_prog deflate))) ''demo:1.0''
          Map.empty) =
     [Printf ''Saving image %s to %s (gzip compressed)...\<newline>''
        [Str ''demo:1.0'', Str ''docker-backups/demo_1.0-20230615-120530.tar.gz''],
      Exec (Command ''sh'' [''-c'',
        ''docker save demo:1.0 | gzip > docker-backups/demo_1.0-20230615-120530.tar.gz'']),
      Printf ''Successfully backed up image %s to %s\<newline>''
        [Str ''demo:1.0'', Str ''docker-backups/demo_1.0-20230615-120530.tar.gz'']] \<and>
   snd (backupImage config0 (sys_on (machine (exits 1) (gzip_prog deflate))) ''demo:1.0''
          Map.empty) ''docker-backups/demo_1.0-20230615-120530.tar.gz'' =
     Some (deflate []) \<and>
   snd (backupImage config0 (sys_on (machine (exits 1) (gzip_prog deflate))) ''demo:1.0''
          Map.empty) ''docker-backups/demo_1.0-20230615-120530.tar.gz.json'' =
     Some ''{}'' \<and>
   fst (backupImage (config0\<lparr>CompressType := ''none''\<rparr>)
          (sys_on (machine (exits 1) (gzip_prog deflate))) ''demo:1.0'' Map.empty) =
     [Printf ''Saving image %s to %s...\<newline>''
        [Str ''demo:1.0'', Str ''docker-backups/demo_1.0-20230615-120530.tar''],
      Exec (Command ''docker''
        [''save'', ''-o'', ''docker-backups/demo_1.0-20230615-120530.tar'', ''demo:1.0'']),
      LogPrintf ''Failed to save image %s: %v'' [Str ''demo:1.0'', Str ''exit status 1'']] \<and>
   reports (fst (backupImage config0 (sys_on (machine (docker_saves bytes) (exits 1)))
                   ''demo:1.0'' Map.empty)) =
     [LogPrintf ''Failed to save image %s: %v'' [Str ''demo:1.0'', Str ''exit status 1'']]"
proof -
  let ?gz = "''docker-backups/demo_1.0-20230615-120530.tar.gz''"
  let ?tar = "''docker-backups/demo_1.0-20230615-120530.tar''"
  let ?script =
    "''docker save demo:1.0 | gzip > docker-backups/demo_1.0-20230615-120530.tar.gz''"
  let ?plain = "config0\<lparr>CompressType := ''none''\<rparr>"
  have e: "ExitError 0 = None" "ExitError (Suc 0) = Some ''exit status 1''"
    by (simp_all add: ExitError_def utod_small digit_def)
  have p: "CompressType ?plain = ''none''" "Verbose ?plain = False"
    by (simp_all add: config0_def)
  have 1: "Run_on (machine (exits (Suc 0)) (gzip_prog deflate))
             (Command ''sh'' [''-c'', ?script]) Map.empty =
           (None, [?gz \<mapsto> deflate []])"
    by (simp add: Run_on_def sh_c_script exits_def gzip_prog_def e)
  have 2: "Run_on (machine (exits (Suc 0)) (gzip_prog deflate))
             (Command ''docker'' [''save'', ''-o'', ?tar, ''demo:1.0'']) Map.empty =
           (Some ''exit status 1'', Map.empty)"
    by (simp add: Run_on_def machine_def exits_def e)
  have 3: "Run_on (machine (docker_saves bytes) (exits (Suc 0)))
             (Command ''sh'' [''-c'', ?script]) Map.empty =
           (Some ''exit status 1'', [?gz \<mapsto> []])"
    by (simp add: Run_on_def sh_c_script exits_def docker_saves_def e)
  have a: "fst (backupImage config0 (sys_on (machine (exits 1) (gzip_prog deflate)))
             ''demo:1.0'' Map.empty) =
     [Printf ''Saving image %s to %s (gzip compressed)...\<newline>'' [Str ''demo:1.0'', Str ?gz],
      Exec (Command ''sh'' [''-c'', ?script]),
      Printf ''Successfully backed up image %s to %s\<newline>'' [Str ''demo:1.0'', Str ?gz]]"
    by (simp add: backupImage_def Let_def sys_on_fields config0_fields tarballName_demo
        save_cmd_def 1 write_sidecar_def)
  have b: "snd (backupImage config0 (sys_on (machine (exits 1) (gzip_prog deflate)))
             ''demo:1.0'' Map.empty) ?gz = Some (deflate [])"
    by (simp add: backupImage_def Let_def sys_on_fields config0_fields tarballName_demo
        save_cmd_def 1 write_sidecar_def metadataPath_def)
  have b': "snd (backupImage config0 (sys_on (machine (exits 1) (gzip_prog deflate)))
             ''demo:1.0'' Map.empty) ''docker-backups/demo_1.0-20230615-120530.tar.gz.json'' =
           Some ''{}''"
    by (simp add: backupImage_def Let_def sys_on_fields config0_fields tarballName_demo
        save_cmd_def 1 write_sidecar_def metadataPath_def)
  have c: "fst (backupImage ?plain (sys_on (machine (exits 1) (gzip_prog deflate)))
             ''demo:1.0'' Map.empty) =
     [Printf ''Saving image %s to %s...\<newline>'' [Str ''demo:1.0'', Str ?tar],
      Exec (Command ''docker'' [''save'', ''-o'', ?tar, ''demo:1.0'']),
      LogPrintf ''Failed to save image %s: %v'' [Str ''demo:1.0'', Str ''exit status 1'']]"
    by (simp add: backupImage_def Let_def sys_on_fields p tarballName_plain save_cmd_def 2)
  have d: "reports (fst (backupImage config0 (sys_on (machine (docker_saves bytes) (exits 1)))
                   ''demo:1.0'' Map.empty)) =
     [LogPrintf ''Failed to save image %s: %v'' [Str ''demo:1.0'', Str ''exit status 1'']]"
    by (simp add: backupImage_def Let_def sys_on_fields config0_fields tarballName_demo
        save_cmd_def 3)
  from a b b' c d show ?thesis
    by (intro conjI)
qed

text \<open>
  C8. With an empty list of work items, \<open>runBackup\<close> and \<open>runRestore\<close> end the process
  with a fatal message and status 1. Nothing has happened before: no directory was made,
  no command was run, and no batch is started, so no worker and no pipeline runs.
\<close>

theorem empty_list_is_fatal:
  "runBackup config sys [] =
     ([Fatalf ''No image names provided. Use command arguments, --file, or --stdin'' []],
      Exit_1) \<and>
   runRestore config [] =
     ([Fatalf ''No tarball paths provided. Use command arguments, --file, or --stdin'' []],
      Exit_1) \<and>
   execs (fst (runBackup config sys [])) = [] \<and>
   MkdirAll (BackupDir config) \<notin> set (fst (runBackup config sys [])) \<and>
   execs (fst (runRestore config [])) = [] \<and>
   snd (runBackup config sys []) \<noteq> Batch cap items \<and>
   snd (runRestore config []) \<noteq> Batch cap items"
  by (simp add: runBackup_def runRestore_def)

end
